theory Spec2Isabelle
  imports Complex_Main "HOL-Library.Multiset"
begin

section \<open>Data model of server.js\<close>

text \<open>
  The two Mongoose models of \<^verbatim>\<open>server.js\<close>, \<^verbatim>\<open>User\<close> (lines 22-40) and
  \<^verbatim>\<open>Transaction\<close> (lines 118-130), as records; the two MongoDB collections behind them
  as lists in insertion order.

  A JavaScript \<^verbatim>\<open>Number\<close> is an IEEE-754 double. The model's Numbers are the
  finite doubles, as real numbers: a value read from the database or from a request
  is one of them, and the arithmetic of the handlers (\<^verbatim>\<open>+=\<close>, \<^verbatim>\<open>-=\<close>,
  \<^verbatim>\<open>*\<close>) rounds the exact result to the nearest double, ties to even
  (\<open>roundToDouble\<close> below); comparison (\<^verbatim>\<open><\<close>) is exact. A result beyond the
  largest double is \<^verbatim>\<open>Infinity\<close> in JavaScript; the model does not follow the code
  there, and it does not tell \<open>-0\<close> from \<open>0\<close>. Request fields have the types the
  schema gives them (a number is a number, a string is a string). An
  \<^verbatim>\<open>ObjectId\<close> is a natural number.
\<close>

type_synonym objectId = nat

text \<open>
  The \<^verbatim>\<open>User\<close> schema. \<open>u_accountNumber\<close> is \<open>None\<close> until
  \<^verbatim>\<open>/api/generate-account\<close> sets it (the schema gives it no default).
  The embedded \<^verbatim>\<open>transactions\<close> array is created empty at sign-up and no handler
  writes to it afterwards; its element declaration has a key \<^verbatim>\<open>type: String\<close>, which
  Mongoose reads as the type of the elements.
\<close>

record user =
  u_id :: objectId
  u_name :: string
  u_email :: string
  u_password :: string
  u_accountNumber :: "string option"
  u_balance :: real
  u_transactions :: "string list"

text \<open>
  The \<^verbatim>\<open>Transaction\<close> schema: \<open>t_type\<close> is the field \<^verbatim>\<open>type\<close>, \<open>t_balance\<close> the
  field \<^verbatim>\<open>balance\<close>, \<open>t_date\<close> the field \<^verbatim>\<open>date\<close> (milliseconds, default
  \<^verbatim>\<open>Date.now\<close>). A field the constructor is not given is \<open>None\<close>.
\<close>

record txn =
  t_userId :: objectId
  t_type :: string
  t_amount :: real
  t_balance :: real
  t_recipientId :: "objectId option"
  t_recipientName :: "string option"
  t_senderId :: "objectId option"
  t_senderName :: "string option"
  t_date :: int

record db =
  userColl :: "user list"
  txnColl :: "txn list"

text \<open>
  What a handler reads from outside the database during one request: the
  \<^verbatim>\<open>ObjectId\<close> the driver generates for a \<^verbatim>\<open>new User\<close>, the result of
  \<^verbatim>\<open>bcrypt.hash(password, 10)\<close> (the library draws the salt itself, so the model takes
  the finished hash as a function of the password for this request), the value of
  \<^verbatim>\<open>Math.random()\<close>, and the values of \<^verbatim>\<open>Date.now()\<close> in the order they are read.
\<close>

record env =
  newObjectId :: objectId
  bcryptHash :: "string \<Rightarrow> string"
  mathRandom :: real
  dateNow :: "nat \<Rightarrow> int"

text \<open>
  The JSON bodies the handlers send. \<open>ErrorBody m\<close> is
  \<^verbatim>\<open>{ message: m, error: error.message }\<close> of the 500 replies: the text of
  \<^verbatim>\<open>error.message\<close> is the runtime's and is not reproduced.
\<close>

datatype body =
    Message string
  | ErrorBody string
  | AccountNumberBody "string option"
  | UserTransactionBody user txn
  | SenderTransactionBody user txn
  | TransactionsBody "txn list"

datatype response = Response (status: nat) (body: body)

section \<open>Number arithmetic\<close>

text \<open>
  The finite doubles are the multiples of \<open>2^-1074\<close> whose magnitude, counted in
  that unit, has at most 53 significant bits (below \<open>2^1024\<close>). \<open>bitLength n\<close> is
  the number of bits of \<open>n\<close>; \<open>roundHalfEven\<close> rounds a real to the nearest integer,
  a tie to the even one; \<open>roundAt s x\<close> writes \<open>x\<close> in units of \<open>2^-s\<close>, drops
  the bits beyond the 53rd by rounding, and converts back. With \<open>s = 1074\<close> this is
  the rounding of every arithmetic operation of a \<^verbatim>\<open>Number\<close>, subnormal results
  included.
\<close>

fun bitLength :: "nat \<Rightarrow> nat" where
  "bitLength n = (if n = 0 then 0 else Suc (bitLength (n div 2)))"

declare bitLength.simps [simp del]

definition roundHalfEven :: "real \<Rightarrow> int" where
  "roundHalfEven z =
     (let f = \<lfloor>z\<rfloor>; d = z - of_int f
      in if d < 1 / 2 then f else if 1 / 2 < d then f + 1 else if even f then f else f + 1)"

definition roundAt :: "nat \<Rightarrow> real \<Rightarrow> real" where
  "roundAt s x =
     (let y = \<bar>x\<bar> * 2 ^ s;
          g = 2 ^ (bitLength (nat \<lfloor>y\<rfloor>) - 53)
      in sgn x * (of_int (roundHalfEven (y / g)) * g / 2 ^ s))"

definition roundToDouble :: "real \<Rightarrow> real" where
  "roundToDouble x = roundAt 1074 x"

text \<open>A real number that is a Number: rounding keeps it.\<close>

definition isNumber :: "real \<Rightarrow> bool" where
  "isNumber x \<longleftrightarrow> roundToDouble x = x"

text \<open>\<^verbatim>\<open>a + b\<close> and \<^verbatim>\<open>a - b\<close> of two Numbers.\<close>

definition numberAdd :: "real \<Rightarrow> real \<Rightarrow> real" where
  "numberAdd a b = roundToDouble (a + b)"

definition numberSub :: "real \<Rightarrow> real \<Rightarrow> real" where
  "numberSub a b = roundToDouble (a - b)"

section \<open>Queries and writes\<close>

text \<open>\<^verbatim>\<open>User.findById(id)\<close>: the stored document with that \<^verbatim>\<open>_id\<close>, or null.\<close>

definition findById :: "db \<Rightarrow> objectId \<Rightarrow> user option" where
  "findById d i = find (\<lambda>u. u_id u = i) (userColl d)"

text \<open>\<^verbatim>\<open>User.findOne({ email })\<close> (lines 48 and 78).\<close>

definition findOneByEmail :: "db \<Rightarrow> string \<Rightarrow> user option" where
  "findOneByEmail d email = find (\<lambda>u. u_email u = email) (userColl d)"

text \<open>
  \<^verbatim>\<open>User.findOne({ accountNumber: recipientAccountNumber, name: recipientName })\<close>
  (lines 180-183): the first document that matches both fields.
\<close>

definition findOneByAccountAndName :: "db \<Rightarrow> string \<Rightarrow> string \<Rightarrow> user option" where
  "findOneByAccountAndName d recipientAccountNumber recipientName =
     find (\<lambda>u. u_accountNumber u = Some recipientAccountNumber \<and> u_name u = recipientName)
       (userColl d)"

text \<open>An update of the one stored document a filter selects (the first it matches).\<close>

fun updateOne :: "('a \<Rightarrow> bool) \<Rightarrow> ('a \<Rightarrow> 'a) \<Rightarrow> 'a list \<Rightarrow> 'a list" where
  "updateOne p f [] = []"
| "updateOne p f (x # xs) = (if p x then f x # xs else x # updateOne p f xs)"

text \<open>
  \<^verbatim>\<open>doc.save({ session })\<close> of a \<^verbatim>\<open>User\<close> document that was loaded as
  \<open>loaded\<close> and whose \<^verbatim>\<open>balance\<close> has been assigned since. Mongoose marks the
  path modified only when the assigned value differs from the loaded one; a document
  with no modified path sends nothing, and otherwise \<^verbatim>\<open>$set: { balance }\<close> goes
  to the document's \<^verbatim>\<open>_id\<close>, carrying the value the in-memory copy holds.
\<close>

definition saveUser :: "db \<Rightarrow> user \<Rightarrow> user \<Rightarrow> db" where
  "saveUser d loaded doc =
     (if u_balance doc = u_balance loaded then d
      else d\<lparr>userColl := updateOne (\<lambda>u. u_id u = u_id doc)
                            (\<lambda>u. u\<lparr>u_balance := u_balance doc\<rparr>) (userColl d)\<rparr>)"

text \<open>\<^verbatim>\<open>transaction.save({ session })\<close> of a new \<^verbatim>\<open>Transaction\<close>: an insert.\<close>

definition saveTransaction :: "db \<Rightarrow> txn \<Rightarrow> db" where
  "saveTransaction d t = d\<lparr>txnColl := txnColl d @ [t]\<rparr>"

text \<open>
  \<^verbatim>\<open>User.findByIdAndUpdate(id, update, { new: true })\<close>: the database after the update
  and the updated document, or the database as it was and null.
\<close>

definition findByIdAndUpdate :: "db \<Rightarrow> objectId \<Rightarrow> (user \<Rightarrow> user) \<Rightarrow> db \<times> user option" where
  "findByIdAndUpdate d i f =
     (case findById d i of
        None \<Rightarrow> (d, None)
      | Some u \<Rightarrow> (d\<lparr>userColl := updateOne (\<lambda>u. u_id u = i) f (userColl d)\<rparr>, Some (f u)))"

section \<open>Number.prototype.toString\<close>

text \<open>
  \<^verbatim>\<open>accountNumber.toString()\<close> (line 107) of an integer-valued Number below
  \<open>10^21\<close>: its decimal digits, with a minus sign when negative.
\<close>

definition digitChar :: "nat \<Rightarrow> char" where
  "digitChar k = ''0123456789'' ! (k mod 10)"

fun digits :: "nat \<Rightarrow> string" where
  "digits n = (if n < 10 then [digitChar n] else digits (n div 10) @ [digitChar (n mod 10)])"

declare digits.simps [simp del]

definition toString :: "int \<Rightarrow> string" where
  "toString n = (if n < 0 then CHR ''-'' # digits (nat (- n)) else digits (nat n))"

section \<open>The handlers\<close>

subsection \<open>POST /api/signup (lines 43-70)\<close>

definition post_signup :: "env \<Rightarrow> db \<Rightarrow> string \<Rightarrow> string \<Rightarrow> string \<Rightarrow> db \<times> response" where
  "post_signup e d name email password =
     (case findOneByEmail d email of
        Some existingUser \<Rightarrow> (d, Response 400 (Message ''Email already registered''))
      | None \<Rightarrow>
          (let hashedPassword = bcryptHash e password;
               user = \<lparr>u_id = newObjectId e, u_name = name, u_email = email,
                       u_password = hashedPassword, u_accountNumber = None,
                       u_balance = 0, u_transactions = []\<rparr>
           in (d\<lparr>userColl := userColl d @ [user]\<rparr>,
               Response 201 (Message ''User created successfully''))))"

subsection \<open>POST /api/generate-account (lines 100-115)\<close>

text \<open>
  \<^verbatim>\<open>Math.floor(Math.random() * 9000000000) + 1000000000\<close> (line 103): the
  product is rounded to a double before \<^verbatim>\<open>Math.floor\<close>; the floor and the sum
  are below \<open>2^53\<close> and exact.
\<close>

definition generateAccountNumber :: "real \<Rightarrow> int" where
  "generateAccountNumber r = \<lfloor>roundToDouble (r * 9000000000)\<rfloor> + 1000000000"

text \<open>
  When no document has the id, \<^verbatim>\<open>user\<close> is null and \<^verbatim>\<open>user.accountNumber\<close>
  throws; the \<^verbatim>\<open>catch\<close> answers 500.
\<close>

definition post_generate_account :: "env \<Rightarrow> db \<Rightarrow> objectId \<Rightarrow> db \<times> response" where
  "post_generate_account e d userId =
     (let accountNumber = generateAccountNumber (mathRandom e)
      in case findByIdAndUpdate d userId
                (\<lambda>u. u\<lparr>u_accountNumber := Some (toString accountNumber)\<rparr>) of
           (d', None) \<Rightarrow> (d', Response 500 (ErrorBody ''Error generating account number''))
         | (d', Some user) \<Rightarrow> (d', Response 200 (AccountNumberBody (u_accountNumber user))))"

subsection \<open>POST /api/transaction (lines 133-170)\<close>

text \<open>
  The body of the \<^verbatim>\<open>try\<close>: \<open>Inl m\<close> is \<^verbatim>\<open>throw new Error(m)\<close>, \<open>Inr\<close> the
  database as the session's writes leave it and the body of the reply.
\<close>

definition transaction_try :: "env \<Rightarrow> db \<Rightarrow> objectId \<Rightarrow> string \<Rightarrow> real \<Rightarrow> string + db \<times> body" where
  "transaction_try e d userId type amount =
     (case findById d userId of
        None \<Rightarrow> Inl ''User not found''
      | Some user \<Rightarrow>
          if type = ''withdraw'' \<and> u_balance user < amount then Inl ''Insufficient balance''
          else
            (let user' = user\<lparr>u_balance :=
                           numberAdd (u_balance user)
                             (if type = ''deposit'' then amount else - amount)\<rparr>;
                 d1 = saveUser d user user';
                 transaction = \<lparr>t_userId = userId, t_type = type, t_amount = amount,
                                t_balance = u_balance user', t_recipientId = None,
                                t_recipientName = None, t_senderId = None,
                                t_senderName = None, t_date = dateNow e 0\<rparr>;
                 d2 = saveTransaction d1 transaction
             in Inr (d2, UserTransactionBody user' transaction)))"

text \<open>
  \<^verbatim>\<open>commitTransaction\<close> after the \<^verbatim>\<open>try\<close> body keeps its writes;
  the \<^verbatim>\<open>catch\<close> aborts the session, so the database is the one the request found,
  and answers 400 with the error's message.
\<close>

definition post_transaction :: "env \<Rightarrow> db \<Rightarrow> objectId \<Rightarrow> string \<Rightarrow> real \<Rightarrow> db \<times> response" where
  "post_transaction e d userId type amount =
     (case transaction_try e d userId type amount of
        Inl message \<Rightarrow> (d, Response 400 (Message message))
      | Inr (d', b) \<Rightarrow> (d', Response 200 b))"

subsection \<open>POST /api/transfer (lines 172-230)\<close>

text \<open>
  \<^verbatim>\<open>sender\<close> and \<^verbatim>\<open>recipient\<close> come from two queries, so they are two in-memory
  documents also when both queries find the same stored document; each is saved
  with its own balance, the sender first. The unary minus of line 150 is exact.
\<close>

definition transfer_try ::
  "env \<Rightarrow> db \<Rightarrow> objectId \<Rightarrow> string \<Rightarrow> real \<Rightarrow> string \<Rightarrow> string + db \<times> body" where
  "transfer_try e d senderId recipientAccountNumber amount recipientName =
     (case (findById d senderId,
            findOneByAccountAndName d recipientAccountNumber recipientName) of
        (Some sender, Some recipient) \<Rightarrow>
          if u_balance sender < amount then Inl ''Insufficient balance''
          else
            (let sender' = sender\<lparr>u_balance := numberSub (u_balance sender) amount\<rparr>;
                 recipient' = recipient\<lparr>u_balance := numberAdd (u_balance recipient) amount\<rparr>;
                 d1 = saveUser d sender sender';
                 d2 = saveUser d1 recipient recipient';
                 senderTransaction =
                   \<lparr>t_userId = u_id sender', t_type = ''transfer_sent'', t_amount = amount,
                    t_balance = u_balance sender', t_recipientId = Some (u_id recipient'),
                    t_recipientName = Some (u_name recipient'), t_senderId = None,
                    t_senderName = None, t_date = dateNow e 0\<rparr>;
                 recipientTransaction =
                   \<lparr>t_userId = u_id recipient', t_type = ''transfer_received'',
                    t_amount = amount, t_balance = u_balance recipient',
                    t_recipientId = None, t_recipientName = None,
                    t_senderId = Some (u_id sender'), t_senderName = Some (u_name sender'),
                    t_date = dateNow e 1\<rparr>;
                 d3 = saveTransaction d2 senderTransaction;
                 d4 = saveTransaction d3 recipientTransaction
             in Inr (d4, SenderTransactionBody sender' senderTransaction))
      | _ \<Rightarrow> Inl ''Invalid sender or recipient'')"

definition post_transfer ::
  "env \<Rightarrow> db \<Rightarrow> objectId \<Rightarrow> string \<Rightarrow> real \<Rightarrow> string \<Rightarrow> db \<times> response" where
  "post_transfer e d senderId recipientAccountNumber amount recipientName =
     (case transfer_try e d senderId recipientAccountNumber amount recipientName of
        Inl message \<Rightarrow> (d, Response 400 (Message message))
      | Inr (d', b) \<Rightarrow> (d', Response 200 b))"

subsection \<open>GET /api/transactions/:userId (lines 232-240)\<close>

text \<open>
  \<^verbatim>\<open>Transaction.find({ userId }).sort({ date: -1 })\<close>: the records of the account,
  by descending date. MongoDB fixes no order among records of equal date; the model
  keeps them in insertion order.
\<close>

definition findTransactions :: "db \<Rightarrow> objectId \<Rightarrow> txn list" where
  "findTransactions d userId =
     sort_key (\<lambda>t. - t_date t) (filter (\<lambda>t. t_userId t = userId) (txnColl d))"

definition get_transactions :: "db \<Rightarrow> objectId \<Rightarrow> db \<times> response" where
  "get_transactions d userId = (d, Response 200 (TransactionsBody (findTransactions d userId)))"

subsection \<open>The server: one request, one reply\<close>

datatype request =
    Signup string string string
  | GenerateAccount objectId
  | Transaction objectId string real
  | Transfer objectId string real string
  | GetTransactions objectId

fun handle :: "env \<Rightarrow> db \<Rightarrow> request \<Rightarrow> db \<times> response" where
  "handle e d (Signup name email password) = post_signup e d name email password"
| "handle e d (GenerateAccount userId) = post_generate_account e d userId"
| "handle e d (Transaction userId type amount) = post_transaction e d userId type amount"
| "handle e d (Transfer senderId recipientAccountNumber amount recipientName) =
     post_transfer e d senderId recipientAccountNumber amount recipientName"
| "handle e d (GetTransactions userId) = get_transactions d userId"

text \<open>
  The server answers its requests one after the other; each is paired with what its
  handler reads from outside the database.
\<close>

fun run :: "db \<Rightarrow> (env \<times> request) list \<Rightarrow> db" where
  "run d [] = d"
| "run d ((e, req) # rest) = run (fst (handle e d req)) rest"

section \<open>Predicates of the ledger\<close>

text \<open>Every stored balance is at least 0.\<close>

definition balancesNonNegative :: "db \<Rightarrow> bool" where
  "balancesNonNegative d = (\<forall>u \<in> set (userColl d). 0 \<le> u_balance u)"

text \<open>
  The requests of the core whose kind is one the interface names: a
  \<^verbatim>\<open>/api/transaction\<close> request with \<^verbatim>\<open>type\<close> deposit or withdraw, and every
  request of the other routes.
\<close>

fun knownKind :: "request \<Rightarrow> bool" where
  "knownKind (Transaction userId type amount) = (type = ''deposit'' \<or> type = ''withdraw'')"
| "knownKind _ = True"

text \<open>The amount a request carries, when it carries one, is at least 0.\<close>

fun amountNonNegative :: "request \<Rightarrow> bool" where
  "amountNonNegative (Transaction userId type amount) = (0 \<le> amount)"
| "amountNonNegative (Transfer senderId recipientAccountNumber amount recipientName) =
     (0 \<le> amount)"
| "amountNonNegative _ = True"

text \<open>
  The record of an account that was written last: the last one in insertion order
  among those the account owns.
\<close>

definition lastRecord :: "db \<Rightarrow> objectId \<Rightarrow> txn option" where
  "lastRecord d i =
     (case filter (\<lambda>t. t_userId t = i) (txnColl d) of
        [] \<Rightarrow> None
      | t # ts \<Rightarrow> Some (last (t # ts)))"

text \<open>
  The balance stored on every account that owns a record is the balance field of
  the account's last record.
\<close>

definition balanceMatchesLedger :: "db \<Rightarrow> bool" where
  "balanceMatchesLedger d =
     (\<forall>u \<in> set (userColl d).
        case lastRecord d (u_id u) of None \<Rightarrow> True | Some t \<Rightarrow> u_balance u = t_balance t)"

text \<open>
  What MongoDB and the handlers keep of the stored data: \<^verbatim>\<open>_id\<close> is unique in the
  \<^verbatim>\<open>User\<close> collection, and the owner of every record is a stored account (the
  handlers write a record only for a document they have just read, and delete none).
\<close>

definition wellFormed :: "db \<Rightarrow> bool" where
  "wellFormed d =
     (distinct (map u_id (userColl d)) \<and>
      (\<forall>t \<in> set (txnColl d). t_userId t \<in> u_id ` set (userColl d)))"

text \<open>
  The \<^verbatim>\<open>ObjectId\<close> that a sign-up gives the new account is not the
  \<^verbatim>\<open>_id\<close> of a stored account, as the driver's generator promises; the other
  requests generate none.
\<close>

fun freshId :: "env \<Rightarrow> db \<Rightarrow> request \<Rightarrow> bool" where
  "freshId e d (Signup name email password) = (newObjectId e \<notin> u_id ` set (userColl d))"
| "freshId e d _ = True"

fun freshIds :: "db \<Rightarrow> (env \<times> request) list \<Rightarrow> bool" where
  "freshIds d [] = True"
| "freshIds d ((e, req) # rest) = (freshId e d req \<and> freshIds (fst (handle e d req)) rest)"

text \<open>
  A transfer whose recipient is the sender's own account, that passes the balance
  check, and in which adding the amount to the balance rounds back to the balance
  while subtracting it does not: the recipient copy is then unmodified and its
  \<^verbatim>\<open>save\<close> sends nothing.
\<close>

fun creditAbsorbed :: "db \<Rightarrow> request \<Rightarrow> bool" where
  "creditAbsorbed d (Transfer senderId recipientAccountNumber amount recipientName) =
     (case (findById d senderId,
            findOneByAccountAndName d recipientAccountNumber recipientName) of
        (Some sender, Some recipient) \<Rightarrow>
          u_id recipient = u_id sender \<and> \<not> u_balance sender < amount \<and>
          numberAdd (u_balance recipient) amount = u_balance recipient \<and>
          numberSub (u_balance sender) amount \<noteq> u_balance sender
      | _ \<Rightarrow> False)"
| "creditAbsorbed d _ = False"

fun noCreditAbsorbed :: "db \<Rightarrow> (env \<times> request) list \<Rightarrow> bool" where
  "noCreditAbsorbed d [] = True"
| "noCreditAbsorbed d ((e, req) # rest) =
     (\<not> creditAbsorbed d req \<and> noCreditAbsorbed (fst (handle e d req)) rest)"

text \<open>
  Well-formedness and the agreement of the balances with the ledger together: what
  every request keeps.
\<close>

definition ledgerInvariant :: "db \<Rightarrow> bool" where
  "ledgerInvariant d \<longleftrightarrow> wellFormed d \<and> balanceMatchesLedger d"

section \<open>Example data\<close>

text \<open>
  The accounts of the scenario of the specification: A holds 150, B holds 0.
\<close>

definition env0 :: env where
  "env0 = \<lparr>newObjectId = 3, bcryptHash = (\<lambda>password. ''$2a$10$examplehash''),
           mathRandom = 1 / 2, dateNow = (\<lambda>k. 1700000000000 + int k)\<rparr>"

definition alice :: user where
  "alice = \<lparr>u_id = 1, u_name = ''Alice'', u_email = ''alice@example.com'',
            u_password = ''$2a$10$a'', u_accountNumber = Some ''1234567890'',
            u_balance = 150, u_transactions = []\<rparr>"

definition bob :: user where
  "bob = \<lparr>u_id = 2, u_name = ''Bob'', u_email = ''bob@example.com'',
          u_password = ''$2a$10$b'', u_accountNumber = Some ''2345678901'',
          u_balance = 0, u_transactions = []\<rparr>"

definition db0 :: db where
  "db0 = \<lparr>userColl = [alice, bob], txnColl = []\<rparr>"

text \<open>
  Two accounts with large balances, \<open>2^53\<close> and \<open>2^54\<close>, and a value of
  \<^verbatim>\<open>Math.random()\<close> whose product with 9000000000 is not a double.
\<close>

definition erin :: user where
  "erin = \<lparr>u_id = 4, u_name = ''Erin'', u_email = ''erin@example.com'',
            u_password = ''$2a$10$c'', u_accountNumber = Some ''4000000000'',
            u_balance = 9007199254740992, u_transactions = []\<rparr>"

definition frank :: user where
  "frank = \<lparr>u_id = 5, u_name = ''Frank'', u_email = ''frank@example.com'',
           u_password = ''$2a$10$d'', u_accountNumber = Some ''5000000000'',
           u_balance = 18014398509481984, u_transactions = []\<rparr>"

definition db1 :: db where
  "db1 = \<lparr>userColl = [alice, erin, frank], txnColl = []\<rparr>"

definition env1 :: env where
  "env1 = \<lparr>newObjectId = 6, bcryptHash = (\<lambda>password. ''$2a$10$examplehash''),
           mathRandom = 5281990650063734 / 2 ^ 53, dateNow = (\<lambda>k. 1700000000000 + int k)\<rparr>"

text \<open>The database before the first request.\<close>

definition emptyDb :: db where
  "emptyDb = \<lparr>userColl = [], txnColl = []\<rparr>"

text \<open>A sign-up, then a deposit of 70 and a withdrawal of 20 on the new account.\<close>

definition signupThenDeposits :: "(env \<times> request) list" where
  "signupThenDeposits =
     [(env0, Signup ''Carol'' ''carol@example.com'' ''secret''),
      (env0, Transaction 3 ''deposit'' 70),
      (env0, Transaction 3 ''withdraw'' 20)]"

section \<open>Facts about Number arithmetic\<close>

lemma bitLength_upper: "n < 2 ^ bitLength n"
proof (induction n rule: bitLength.induct)
  case (1 n)
  show ?case
  proof (cases "n = 0")
    case True
    then show ?thesis by (simp add: bitLength.simps)
  next
    case False
    with "1.IH" have "n div 2 < 2 ^ bitLength (n div 2)"
      by simp
    then have "n < 2 * 2 ^ bitLength (n div 2)"
      by linarith
    with False show ?thesis
      by (subst bitLength.simps) simp
  qed
qed

lemma bitLength_lower: "0 < n \<Longrightarrow> 2 ^ (bitLength n - 1) \<le> n"
proof (induction n rule: bitLength.induct)
  case (1 n)
  show ?case
  proof (cases "n div 2 = 0")
    case True
    from "1.prems" have "bitLength n = Suc (bitLength (n div 2))"
      by (simp add: bitLength.simps [of n])
    with True have z: "bitLength n - 1 = 0"
      by (simp add: bitLength.simps [of 0])
    have "(2::nat) ^ (bitLength n - 1) = 1"
      unfolding z by simp
    with "1.prems" show ?thesis
      by linarith
  next
    case False
    with "1.prems" "1.IH" have ih: "2 ^ (bitLength (n div 2) - 1) \<le> n div 2"
      by simp
    from False have pos: "0 < bitLength (n div 2)"
      by (simp add: bitLength.simps [of "n div 2"])
    from "1.prems" have "bitLength n = Suc (bitLength (n div 2))"
      by (simp add: bitLength.simps [of n])
    then have "2 ^ (bitLength n - 1) = (2::nat) * 2 ^ (bitLength (n div 2) - 1)"
      using pos by (cases "bitLength (n div 2)") simp_all
    also have "\<dots> \<le> 2 * (n div 2)"
      using ih by simp
    also have "\<dots> \<le> n"
      by simp
    finally show ?thesis .
  qed
qed

lemma bitLength_le: "n < 2 ^ k \<Longrightarrow> bitLength n \<le> k"
proof (cases "n = 0")
  case True
  then show ?thesis by (simp add: bitLength.simps)
next
  case False
  assume "n < 2 ^ k"
  moreover from False have "2 ^ (bitLength n - 1) \<le> n"
    by (intro bitLength_lower) simp
  ultimately have "(2::nat) ^ (bitLength n - 1) < 2 ^ k"
    by linarith
  then have "bitLength n - 1 < k"
    by simp
  then show ?thesis
    by linarith
qed

lemma bitLength_eqI: "2 ^ k \<le> n \<Longrightarrow> n < 2 ^ Suc k \<Longrightarrow> bitLength n = Suc k"
proof -
  assume lo: "2 ^ k \<le> n" and hi: "n < 2 ^ Suc k"
  from hi have "bitLength n \<le> Suc k"
    by (rule bitLength_le)
  moreover have "n < 2 ^ bitLength n"
    by (rule bitLength_upper)
  with lo have "(2::nat) ^ k < 2 ^ bitLength n"
    by linarith
  then have "k < bitLength n"
    by simp
  ultimately show ?thesis
    by linarith
qed

lemma roundHalfEven_of_int: "roundHalfEven (of_int n) = n"
  by (simp add: roundHalfEven_def)

lemma roundHalfEven_ge: "of_int n \<le> z \<Longrightarrow> n \<le> roundHalfEven z"
proof -
  assume "of_int n \<le> z"
  then have "n \<le> \<lfloor>z\<rfloor>"
    by (simp add: le_floor_iff)
  then show ?thesis
    by (simp add: roundHalfEven_def Let_def)
qed

lemma roundHalfEven_le: "z \<le> of_int n \<Longrightarrow> roundHalfEven z \<le> n"
proof -
  assume le: "z \<le> of_int n"
  then have f: "\<lfloor>z\<rfloor> \<le> n"
    by (simp add: floor_le_iff)
  show ?thesis
  proof (cases "\<lfloor>z\<rfloor> = n")
    case True
    with le have "z = of_int n"
      using of_int_floor_le [of z] by linarith
    then show ?thesis
      by (simp add: roundHalfEven_of_int)
  next
    case False
    with f have "\<lfloor>z\<rfloor> + 1 \<le> n"
      by linarith
    then show ?thesis
      by (simp add: roundHalfEven_def Let_def)
  qed
qed

lemma roundHalfEven_below_half: "z < of_int n - 1 / 2 \<Longrightarrow> roundHalfEven z < n"
proof -
  assume lt: "z < of_int n - 1 / 2"
  then have f: "\<lfloor>z\<rfloor> \<le> n - 1"
    using of_int_floor_le [of z] by (simp add: floor_le_iff) linarith
  show ?thesis
  proof (cases "\<lfloor>z\<rfloor> = n - 1")
    case True
    with lt have "z - of_int \<lfloor>z\<rfloor> < 1 / 2"
      by simp
    with True show ?thesis
      by (simp add: roundHalfEven_def Let_def)
  next
    case False
    with f have "\<lfloor>z\<rfloor> + 1 < n"
      by linarith
    then show ?thesis
      by (simp add: roundHalfEven_def Let_def)
  qed
qed

lemma roundAt_nonneg: "0 \<le> x \<Longrightarrow> 0 \<le> roundAt s x"
proof -
  assume "0 \<le> x"
  let ?g = "2 ^ (bitLength (nat \<lfloor>\<bar>x\<bar> * 2 ^ s\<rfloor>) - 53) :: real"
  have "(0::real) \<le> \<bar>x\<bar> * 2 ^ s / ?g"
    by simp
  then have "0 \<le> roundHalfEven (\<bar>x\<bar> * 2 ^ s / ?g)"
    using roundHalfEven_ge [of 0] by simp
  with \<open>0 \<le> x\<close> show ?thesis
    by (simp add: roundAt_def Let_def sgn_if)
qed

lemma roundToDouble_nonneg: "0 \<le> x \<Longrightarrow> 0 \<le> roundToDouble x"
  by (simp add: roundToDouble_def roundAt_nonneg)

lemma roundAt_zero: "roundAt s 0 = 0"
  by (simp add: roundAt_def)

text \<open>A value whose scaled magnitude is m * 2^j with m below 2^53 is kept.\<close>

lemma roundAt_dyadic:
  assumes "m < 2 ^ 53" and "\<bar>x\<bar> * 2 ^ s = of_nat (m * 2 ^ j)"
  shows "roundAt s x = x"
proof -
  let ?N = "m * 2 ^ j"
  let ?b = "bitLength ?N"
  from assms(1) have "?N < 2 ^ 53 * 2 ^ j"
    by simp
  then have "?N < 2 ^ (53 + j)"
    by (simp add: power_add)
  then have "?b \<le> 53 + j"
    by (rule bitLength_le)
  then have le: "?b - 53 \<le> j"
    by simp
  have y: "\<bar>x\<bar> * 2 ^ s = real ?N"
    using assms(2) by simp
  from le have split: "(2::real) ^ j = 2 ^ (?b - 53) * 2 ^ (j - (?b - 53))"
    by (simp flip: power_add)
  have "real ?N / 2 ^ (?b - 53) = real (m * 2 ^ (j - (?b - 53)))"
    by (simp add: split)
  then have "roundHalfEven (real ?N / 2 ^ (?b - 53)) = int (m * 2 ^ (j - (?b - 53)))"
    using roundHalfEven_of_int [of "int (m * 2 ^ (j - (?b - 53)))"] by simp
  moreover have "real_of_int (int (m * 2 ^ (j - (?b - 53)))) * 2 ^ (?b - 53) = real ?N"
    by (simp add: split)
  ultimately have kept:
    "of_int (roundHalfEven (real ?N / 2 ^ (?b - 53))) * 2 ^ (?b - 53) = real ?N"
    by simp
  have "roundAt s x =
          sgn x * (of_int (roundHalfEven (real ?N / 2 ^ (?b - 53))) * 2 ^ (?b - 53) / 2 ^ s)"
    by (simp only: roundAt_def Let_def y floor_of_nat nat_int)
  also have "\<dots> = sgn x * (real ?N / 2 ^ s)"
    by (simp only: kept)
  also have "real ?N / 2 ^ s = \<bar>x\<bar>"
    using y by (simp add: field_simps)
  also have "sgn x * \<bar>x\<bar> = x"
    by (simp add: sgn_if)
  finally show ?thesis .
qed

lemma isNumber_of_int:
  assumes "\<bar>n\<bar> \<le> 2 ^ 53"
  shows "isNumber (of_int n)"
proof (cases "\<bar>n\<bar> = 2 ^ 53")
  case True
  have "\<bar>real_of_int n\<bar> * 2 ^ 1074 = of_nat (1 * 2 ^ (53 + 1074))"
    using True by (simp add: power_add flip: of_int_abs)
  then have "roundAt 1074 (of_int n) = of_int n"
    by (intro roundAt_dyadic [where m = 1 and j = "53 + 1074"]) simp_all
  then show ?thesis
    by (simp add: isNumber_def roundToDouble_def)
next
  case False
  with assms have small: "nat \<bar>n\<bar> < 2 ^ 53"
    by (simp add: nat_less_iff)
  have "\<bar>real_of_int n\<bar> * 2 ^ 1074 = of_nat (nat \<bar>n\<bar> * 2 ^ 1074)"
    by (simp flip: of_int_abs)
  with small have "roundAt 1074 (of_int n) = of_int n"
    by (intro roundAt_dyadic [where m = "nat \<bar>n\<bar>" and j = 1074])
  then show ?thesis
    by (simp add: isNumber_def roundToDouble_def)
qed

lemma nat_floor_real: "0 \<le> y \<Longrightarrow> real (nat \<lfloor>y::real\<rfloor>) = of_int \<lfloor>y\<rfloor>"
  by simp

lemma floor_scaled_bounds:
  assumes "2 ^ k \<le> y" and "y < 2 ^ Suc k"
  shows "2 ^ k \<le> nat \<lfloor>y::real\<rfloor> \<and> nat \<lfloor>y\<rfloor> < 2 ^ Suc k"
proof -
  have "(0::real) \<le> 2 ^ k"
    by simp
  with assms(1) have "0 \<le> y"
    by linarith
  then have n: "real (nat \<lfloor>y\<rfloor>) = of_int \<lfloor>y\<rfloor>"
    by (rule nat_floor_real)
  have "real_of_int (2 ^ k) \<le> y"
    using assms(1) by simp
  then have "2 ^ k \<le> \<lfloor>y\<rfloor>"
    by (simp only: le_floor_iff)
  then have "real_of_int (2 ^ k) \<le> real_of_int \<lfloor>y\<rfloor>"
    by (simp only: of_int_le_iff)
  with n have "real (2 ^ k) \<le> real (nat \<lfloor>y\<rfloor>)"
    by simp
  then have lo: "2 ^ k \<le> nat \<lfloor>y\<rfloor>"
    by (simp only: of_nat_le_iff)
  have "real (nat \<lfloor>y\<rfloor>) \<le> y"
    unfolding n by (rule of_int_floor_le)
  with assms(2) have "real (nat \<lfloor>y\<rfloor>) < 2 ^ Suc k"
    by linarith
  then have "real (nat \<lfloor>y\<rfloor>) < real (2 ^ Suc k)"
    by simp
  then have "nat \<lfloor>y\<rfloor> < 2 ^ Suc k"
    by (simp only: of_nat_less_iff)
  with lo show ?thesis
    by simp
qed

text \<open>Rounding inside one binade: the grid is fixed by the binade.\<close>

lemma roundAt_binade:
  assumes "0 < x" and "2 ^ (52 + c) \<le> x * 2 ^ s" and "x * 2 ^ s < 2 ^ (53 + c)"
  shows "roundAt s x = of_int (roundHalfEven (x * 2 ^ s / 2 ^ c)) * 2 ^ c / 2 ^ s"
proof -
  have "2 ^ (52 + c) \<le> nat \<lfloor>x * 2 ^ s\<rfloor> \<and> nat \<lfloor>x * 2 ^ s\<rfloor> < 2 ^ Suc (52 + c)"
    using assms(2,3) by (intro floor_scaled_bounds) simp_all
  then have "bitLength (nat \<lfloor>x * 2 ^ s\<rfloor>) = Suc (52 + c)"
    by (intro bitLength_eqI) simp_all
  then have g: "bitLength (nat \<lfloor>x * 2 ^ s\<rfloor>) - 53 = c"
    by simp
  from assms(1) have "sgn x = 1" and "\<bar>x\<bar> = x"
    by simp_all
  then show ?thesis
    by (simp add: roundAt_def Let_def g)
qed

lemma roundAt_upper:
  assumes "0 \<le> x" and "x * 2 ^ s < 2 ^ b"
  shows "roundAt s x \<le> 2 ^ b / 2 ^ s"
proof -
  let ?y = "\<bar>x\<bar> * 2 ^ s"
  let ?N = "nat \<lfloor>?y\<rfloor>"
  let ?l = "bitLength ?N"
  let ?r = "real_of_int (roundHalfEven (?y / 2 ^ (?l - 53)))"
  from assms(1) have y: "?y = x * 2 ^ s" and nonneg: "0 \<le> ?y"
    by simp_all
  from nonneg have n: "real ?N = of_int \<lfloor>?y\<rfloor>"
    by (rule nat_floor_real)
  have "real ?N \<le> ?y"
    unfolding n by (rule of_int_floor_le)
  with assms(2) y have "real ?N < 2 ^ b"
    by linarith
  then have "real ?N < real (2 ^ b)"
    by simp
  then have "?N < 2 ^ b"
    by (simp only: of_nat_less_iff)
  then have lb: "?l \<le> b"
    by (rule bitLength_le)
  have "?N < 2 ^ ?l"
    by (rule bitLength_upper)
  then have "Suc ?N \<le> 2 ^ ?l"
    by (simp only: Suc_le_eq)
  then have "real (Suc ?N) \<le> real (2 ^ ?l)"
    by (simp only: of_nat_le_iff)
  then have "real ?N + 1 \<le> 2 ^ ?l"
    by simp
  moreover have "?y < real_of_int \<lfloor>?y\<rfloor> + 1"
    by linarith
  ultimately have ylt: "?y \<le> 2 ^ ?l"
    using n by linarith
  have split: "(2::real) ^ ?l = 2 ^ (?l - (?l - 53)) * 2 ^ (?l - 53)"
    by (simp flip: power_add)
  have pos: "(0::real) < 2 ^ (?l - 53)"
    by simp
  from ylt have "?y \<le> 2 ^ (?l - (?l - 53)) * 2 ^ (?l - 53)"
    by (simp only: split [symmetric])
  with pos have "?y / 2 ^ (?l - 53) \<le> 2 ^ (?l - (?l - 53))"
    by (simp only: pos_divide_le_eq)
  then have "?y / 2 ^ (?l - 53) \<le> real_of_int (2 ^ (?l - (?l - 53)))"
    by simp
  then have "roundHalfEven (?y / 2 ^ (?l - 53)) \<le> 2 ^ (?l - (?l - 53))"
    by (rule roundHalfEven_le)
  then have "?r \<le> real_of_int (2 ^ (?l - (?l - 53)))"
    by (simp only: of_int_le_iff)
  then have "?r \<le> 2 ^ (?l - (?l - 53))"
    by simp
  with pos have "?r * 2 ^ (?l - 53) \<le> 2 ^ (?l - (?l - 53)) * 2 ^ (?l - 53)"
    by (simp only: mult_le_cancel_right_pos)
  then have "?r * 2 ^ (?l - 53) \<le> 2 ^ ?l"
    by (simp only: split [symmetric])
  also have "(2::real) ^ ?l \<le> 2 ^ b"
    using lb by simp
  finally have "?r * 2 ^ (?l - 53) / 2 ^ s \<le> 2 ^ b / 2 ^ s"
    by (simp add: divide_right_mono)
  moreover have "roundAt s x \<le> ?r * 2 ^ (?l - 53) / 2 ^ s"
  proof (cases "x = 0")
    case True
    then show ?thesis
      by (simp add: roundAt_def roundHalfEven_def)
  next
    case False
    with assms(1) have "sgn x = 1"
      by simp
    then show ?thesis
      by (simp add: roundAt_def Let_def)
  qed
  ultimately show ?thesis
    by linarith
qed

lemma roundToDouble_of_int: "\<bar>n\<bar> \<le> 2 ^ 53 \<Longrightarrow> roundToDouble (of_int n) = of_int n"
  using isNumber_of_int [of n] by (simp add: isNumber_def)

text \<open>Between \<open>2^53\<close> and \<open>2^54\<close> the doubles are the even integers.\<close>

lemma roundToDouble_even_grid:
  assumes "2 ^ 53 \<le> x" and "x < 2 ^ 54"
  shows "roundToDouble x = of_int (roundHalfEven (x / 2)) * 2"
proof -
  have "(0::real) < 2 ^ 53"
    by simp
  with assms(1) have pos: "0 < x"
    by linarith
  from assms(1) have "2 ^ 53 * 2 ^ 1074 \<le> x * 2 ^ 1074"
    by simp
  then have b1: "2 ^ (52 + 1075) \<le> x * 2 ^ 1074"
    by (simp flip: power_add)
  from assms(2) have "x * 2 ^ 1074 < 2 ^ 54 * 2 ^ 1074"
    by simp
  then have b2: "x * 2 ^ 1074 < 2 ^ (53 + 1075)"
    by (simp flip: power_add)
  have split: "(2::real) ^ 1075 = 2 * 2 ^ 1074"
    by (simp flip: power_Suc)
  have "roundAt 1074 x = of_int (roundHalfEven (x * 2 ^ 1074 / 2 ^ 1075)) * 2 ^ 1075 / 2 ^ 1074"
    using pos b1 b2 by (rule roundAt_binade)
  then show ?thesis
    by (simp only: roundToDouble_def split) simp
qed

section \<open>Facts about the account number\<close>

lemma unit_double_le:
  assumes "m < 2 ^ 53" and "53 \<le> k"
  shows "real m / 2 ^ k \<le> 1 - 1 / 2 ^ 53"
proof -
  from assms(1) have "Suc m \<le> 2 ^ 53"
    by (simp only: Suc_le_eq)
  then have "real (Suc m) \<le> real (2 ^ 53)"
    by (simp only: of_nat_le_iff)
  then have m: "real m \<le> 2 ^ 53 - 1"
    by simp
  from assms(2) have "(2::real) ^ 53 \<le> 2 ^ k"
    by (intro power_increasing) simp_all
  then have "real m / 2 ^ k \<le> real m / 2 ^ 53"
    by (intro divide_left_mono) simp_all
  also have "\<dots> \<le> (2 ^ 53 - 1) / 2 ^ 53"
    using m by (intro divide_right_mono) simp_all
  also have "\<dots> = 1 - 1 / 2 ^ 53"
    by (simp add: field_simps)
  finally show ?thesis .
qed

lemma product_rounds_below:
  assumes "0 \<le> p" and "p \<le> 9000000000 * (1 - 1 / 2 ^ 53)"
  shows "0 \<le> roundToDouble p \<and> roundToDouble p < 9000000000"
proof -
  have lo: "0 \<le> roundToDouble p"
    using assms(1) by (rule roundToDouble_nonneg)
  have "roundToDouble p < 9000000000"
  proof (cases "p < 2 ^ 33")
    case True
    then have "p * 2 ^ 1074 < 2 ^ 33 * 2 ^ 1074"
      by simp
    then have "p * 2 ^ 1074 < 2 ^ (33 + 1074)"
      by (simp only: power_add)
    with assms(1) have "roundAt 1074 p \<le> 2 ^ (33 + 1074) / 2 ^ 1074"
      by (rule roundAt_upper)
    also have "(2::real) ^ (33 + 1074) / 2 ^ 1074 = 2 ^ 33"
      by (simp only: power_add) simp
    also have "(2::real) ^ 33 < 9000000000"
      by simp
    finally show ?thesis
      by (simp only: roundToDouble_def)
  next
    case False
    then have big: "2 ^ 33 \<le> p"
      by simp
    then have pos: "0 < p"
      by (smt (verit) zero_less_power)
    from big have "2 ^ 33 * 2 ^ 1074 \<le> p * 2 ^ 1074"
      by simp
    then have b1: "2 ^ (52 + 1055) \<le> p * 2 ^ 1074"
      by (simp flip: power_add)
    from assms(2) have "p < 2 ^ 34"
      by simp
    then have "p * 2 ^ 1074 < 2 ^ 34 * 2 ^ 1074"
      by simp
    then have b2: "p * 2 ^ 1074 < 2 ^ (53 + 1055)"
      by (simp flip: power_add)
    have scale: "p * 2 ^ 1074 / 2 ^ 1055 = p * 2 ^ 19"
    proof -
      have "(2::real) ^ 1074 = 2 ^ 19 * 2 ^ 1055"
        by (simp flip: power_add)
      then show ?thesis
        by simp
    qed
    have r: "roundAt 1074 p = of_int (roundHalfEven (p * 2 ^ 19)) * 2 ^ 1055 / 2 ^ 1074"
      using roundAt_binade [OF pos b1 b2] by (simp only: scale)
    have unscale: "(2::real) ^ 1055 / 2 ^ 1074 = 1 / 2 ^ 19"
    proof -
      have "(2::real) ^ 1074 = 2 ^ 19 * 2 ^ 1055"
        by (simp flip: power_add)
      then show ?thesis
        by simp
    qed
    from assms(2) have "p * 2 ^ 19 < real_of_int 4718592000000000 - 1 / 2"
      by simp
    then have "roundHalfEven (p * 2 ^ 19) < 4718592000000000"
      by (rule roundHalfEven_below_half)
    then have "real_of_int (roundHalfEven (p * 2 ^ 19)) < 4718592000000000"
      by linarith
    then have "real_of_int (roundHalfEven (p * 2 ^ 19)) * (1 / 2 ^ 19) < 9000000000"
      by simp
    moreover have "roundAt 1074 p = real_of_int (roundHalfEven (p * 2 ^ 19)) * (1 / 2 ^ 19)"
      unfolding r using unscale by simp
    ultimately show ?thesis
      by (simp only: roundToDouble_def)
  qed
  with lo show ?thesis
    by simp
qed

lemma generateAccountNumber_range:
  assumes "r = real m / 2 ^ k" and "m < 2 ^ 53" and "53 \<le> k"
  shows "1000000000 \<le> generateAccountNumber r \<and> generateAccountNumber r \<le> 9999999999"
proof -
  have "0 \<le> r"
    using assms(1) by simp
  then have p0: "0 \<le> r * 9000000000"
    by simp
  have "r \<le> 1 - 1 / 2 ^ 53"
    unfolding assms(1) using assms(2,3) by (rule unit_double_le)
  then have "r * 9000000000 \<le> 9000000000 * (1 - 1 / 2 ^ 53)"
    by simp
  with p0 have "0 \<le> roundToDouble (r * 9000000000) \<and>
                roundToDouble (r * 9000000000) < 9000000000"
    by (rule product_rounds_below)
  then have "0 \<le> \<lfloor>roundToDouble (r * 9000000000)\<rfloor>"
    and "\<lfloor>roundToDouble (r * 9000000000)\<rfloor> < 9000000000"
    by (simp_all add: floor_less_iff)
  then show ?thesis
    by (simp add: generateAccountNumber_def)
qed

lemma roundAt_fixed_form:
  assumes "roundAt s r = r" and "0 < r"
  shows "\<exists>K j. K < 2 ^ 53 \<and> r * 2 ^ s = real K * 2 ^ j"
proof -
  let ?y = "r * 2 ^ s"
  let ?N = "nat \<lfloor>?y\<rfloor>"
  let ?b = "bitLength ?N"
  let ?j = "?b - 53"
  let ?K = "roundHalfEven (?y / 2 ^ ?j)"
  from assms(2) have sg: "sgn r = 1" and ab: "\<bar>r\<bar> = r"
    by simp_all
  from assms(1) have "of_int ?K * 2 ^ ?j / 2 ^ s = r"
    by (simp add: roundAt_def Let_def sg ab)
  then have y: "?y = of_int ?K * 2 ^ ?j"
    by (simp add: field_simps)
  from assms(2) have ypos: "0 < ?y"
    by simp
  have Kpos: "0 < ?K"
  proof (rule ccontr)
    assume "\<not> 0 < ?K"
    then have "real_of_int ?K \<le> 0"
      by simp
    then have "real_of_int ?K * 2 ^ ?j \<le> 0"
      by (simp add: mult_le_0_iff)
    with y ypos show False
      by linarith
  qed
  have n: "real ?N = of_int \<lfloor>?y\<rfloor>"
    using ypos by (intro nat_floor_real) simp
  have "?N < 2 ^ ?b"
    by (rule bitLength_upper)
  then have "Suc ?N \<le> 2 ^ ?b"
    by (simp only: Suc_le_eq)
  then have "real (Suc ?N) \<le> real (2 ^ ?b)"
    by (simp only: of_nat_le_iff)
  then have "real ?N + 1 \<le> 2 ^ ?b"
    by simp
  moreover have "?y < real_of_int \<lfloor>?y\<rfloor> + 1"
    by linarith
  ultimately have ylt: "?y < 2 ^ ?b"
    using n by linarith
  have "?b \<le> 53 + ?j"
    by simp
  then have "(2::real) ^ ?b \<le> 2 ^ (53 + ?j)"
    by (intro power_increasing) simp_all
  with ylt y have "real_of_int ?K * 2 ^ ?j < 2 ^ 53 * 2 ^ ?j"
    by (simp add: power_add)
  then have Klt: "real_of_int ?K < 2 ^ 53"
    by simp
  define K where "K = nat ?K"
  from Kpos have Kreal: "real K = real_of_int ?K"
    by (simp add: K_def)
  with Klt have "real K < real (2 ^ 53)"
    by simp
  then have "K < 2 ^ 53"
    by (simp only: of_nat_less_iff)
  moreover from y Kreal have "?y = real K * 2 ^ ?j"
    by simp
  ultimately show ?thesis
    by blast
qed

lemma unit_form:
  assumes "K < 2 ^ p" and "r * 2 ^ s = real K * 2 ^ j" and "r < 1" and "p \<le> s"
  shows "\<exists>m k. r = real m / 2 ^ k \<and> m < 2 ^ p \<and> p \<le> k"
proof (cases "j + p \<le> s")
  case True
  then have "(2::real) ^ s = 2 ^ j * 2 ^ (s - j)"
    by (simp flip: power_add)
  with assms(2) have "r * 2 ^ (s - j) = real K"
    by simp
  then have "r = real K / 2 ^ (s - j)"
    by (simp add: field_simps)
  moreover from True have "p \<le> s - j"
    by simp
  ultimately show ?thesis
    using assms(1) by blast
next
  case False
  with assms(4) have "(2::real) ^ j = 2 ^ (j - (s - p)) * 2 ^ (s - p)"
    by (simp flip: power_add)
  moreover from assms(4) have "(2::real) ^ s = 2 ^ p * 2 ^ (s - p)"
    by (simp flip: power_add)
  ultimately have "r * 2 ^ p * 2 ^ (s - p) = real K * 2 ^ (j - (s - p)) * 2 ^ (s - p)"
    using assms(2) by simp
  then have eq: "r * 2 ^ p = real (K * 2 ^ (j - (s - p)))"
    by simp
  then have form: "r = real (K * 2 ^ (j - (s - p))) / 2 ^ p"
    by (simp add: field_simps)
  from assms(3) have "r * 2 ^ p < 2 ^ p"
    by simp
  with eq have "real (K * 2 ^ (j - (s - p))) < real (2 ^ p)"
    by simp
  then have "K * 2 ^ (j - (s - p)) < 2 ^ p"
    by (simp only: of_nat_less_iff)
  with form show ?thesis
    by blast
qed

text \<open>The Numbers in \<open>[0, 1)\<close> are the \<open>m / 2^k\<close> with \<open>m < 2^53\<close> and \<open>k \<ge> 53\<close>.\<close>

lemma unit_double_form:
  assumes "isNumber r" and "0 \<le> r" and "r < 1"
  shows "\<exists>m k. r = real m / 2 ^ k \<and> m < 2 ^ 53 \<and> 53 \<le> k"
proof (cases "r = 0")
  case True
  then have "r = real 0 / 2 ^ 53 \<and> (0::nat) < 2 ^ 53 \<and> (53::nat) \<le> 53"
    by simp
  then show ?thesis
    by blast
next
  case False
  with assms(2) have pos: "0 < r"
    by simp
  from assms(1) have "roundAt 1074 r = r"
    by (simp only: isNumber_def roundToDouble_def)
  then obtain K j where "K < 2 ^ 53" and "r * 2 ^ 1074 = real K * 2 ^ j"
    using pos roundAt_fixed_form [of 1074 r] by blast
  then show ?thesis
    using assms(3) by (rule unit_form) simp
qed

lemma generateAccountNumber_range_Number:
  assumes "isNumber r" and "0 \<le> r" and "r < 1"
  shows "1000000000 \<le> generateAccountNumber r \<and> generateAccountNumber r \<le> 9999999999"
proof -
  from assms obtain m k where "r = real m / 2 ^ k" and "m < 2 ^ 53" and "53 \<le> k"
    using unit_double_form by blast
  then show ?thesis
    by (rule generateAccountNumber_range)
qed

lemma roundAt_unit_double:
  assumes "m < 2 ^ 53" and "k \<le> s"
  shows "roundAt s (real m / 2 ^ k) = real m / 2 ^ k"
proof -
  from assms(2) have split: "(2::real) ^ s = 2 ^ k * 2 ^ (s - k)"
    by (simp flip: power_add)
  have "\<bar>real m / 2 ^ k\<bar> * 2 ^ s = real (m * 2 ^ (s - k))"
    by (simp add: split)
  with assms(1) show ?thesis
    by (rule roundAt_dyadic)
qed

lemma isNumber_unit_double:
  assumes "m < 2 ^ 53" and "k \<le> 1074"
  shows "isNumber (real m / 2 ^ k)"
  using assms by (simp only: isNumber_def roundToDouble_def roundAt_unit_double)

text \<open>The product is rounded before the floor: here it rounds up to an integer.\<close>

lemma generateAccountNumber_rounded:
  "generateAccountNumber (5281990650063734 / 2 ^ 53) = 6277768872"
proof -
  let ?p = "5281990650063734 / 2 ^ 53 * 9000000000 :: real"
  have pos: "0 < ?p"
    by simp
  have "2 ^ 32 \<le> ?p"
    by simp
  then have "2 ^ 32 * 2 ^ 1074 \<le> ?p * 2 ^ 1074"
    by (simp only: mult_le_cancel_right_pos zero_less_power zero_less_numeral)
  then have b1: "2 ^ (52 + 1054) \<le> ?p * 2 ^ 1074"
    by (simp only: power_add [symmetric]) simp
  have "?p < 2 ^ 33"
    by simp
  then have "?p * 2 ^ 1074 < 2 ^ 33 * 2 ^ 1074"
    by (simp only: mult_less_cancel_right_pos zero_less_power zero_less_numeral)
  then have b2: "?p * 2 ^ 1074 < 2 ^ (53 + 1054)"
    by (simp only: power_add [symmetric]) simp
  have split: "(2::real) ^ 1074 = 2 ^ 20 * 2 ^ 1054"
    by (simp flip: power_add)
  have scale: "?p * 2 ^ 1074 / 2 ^ 1054 = ?p * 2 ^ 20"
    by (simp only: split) simp
  have r: "roundAt 1074 ?p = of_int (roundHalfEven (?p * 2 ^ 20)) * 2 ^ 1054 / 2 ^ 1074"
    using roundAt_binade [OF pos b1 b2] by (simp only: scale)
  have unscale: "(2::real) ^ 1054 / 2 ^ 1074 = 1 / 2 ^ 20"
    by (simp only: split) simp
  have "roundHalfEven (?p * 2 ^ 20) = 5534141772726272"
    by (simp add: roundHalfEven_def Let_def)
  then have "roundAt 1074 ?p = 5277768872"
    unfolding r using unscale by simp
  then show ?thesis
    by (simp add: generateAccountNumber_def roundToDouble_def)
qed

section \<open>Facts about the queries and writes\<close>

lemma find_updateOne:
  assumes "\<And>x. g (f x) = g x"
  shows "find (\<lambda>x. g x = j) (updateOne (\<lambda>x. g x = i) f xs) =
         (if i = j then map_option f (find (\<lambda>x. g x = j) xs) else find (\<lambda>x. g x = j) xs)"
  using assms by (induction xs) auto

lemma findById_saveUser:
  "findById (saveUser d loaded doc) j =
     (if u_balance doc \<noteq> u_balance loaded \<and> u_id doc = j
      then map_option (\<lambda>u. u\<lparr>u_balance := u_balance doc\<rparr>) (findById d j)
      else findById d j)"
  by (simp add: findById_def saveUser_def find_updateOne)

lemma txnColl_saveUser: "txnColl (saveUser d loaded doc) = txnColl d"
  by (simp add: saveUser_def)

lemma findById_saveTransaction: "findById (saveTransaction d t) j = findById d j"
  by (simp add: findById_def saveTransaction_def)

lemma findById_id: "findById d i = Some u \<Longrightarrow> u_id u = i"
  by (auto simp: findById_def find_Some_iff)

lemma findById_mem: "findById d i = Some u \<Longrightarrow> u \<in> set (userColl d)"
  by (auto simp: findById_def find_Some_iff)

lemma findById_db0_alice: "findById db0 1 = Some alice"
  by (simp add: findById_def db0_def alice_def)

lemma findOne_None_iff:
  "findOneByAccountAndName d acct nm = None \<longleftrightarrow>
     (\<forall>u \<in> set (userColl d). \<not> (u_accountNumber u = Some acct \<and> u_name u = nm))"
  by (auto simp: findOneByAccountAndName_def find_None_iff)

lemma findById_None_iff:
  "findById d i = None \<longleftrightarrow> (\<forall>u \<in> set (userColl d). u_id u \<noteq> i)"
  by (auto simp: findById_def find_None_iff)

lemma findOneByEmail_None_iff:
  "findOneByEmail d em = None \<longleftrightarrow> (\<forall>u \<in> set (userColl d). u_email u \<noteq> em)"
  by (auto simp: findOneByEmail_def find_None_iff)

lemma findById_updateOne:
  assumes "\<And>x. u_id (f x) = u_id x"
  shows "findById (d\<lparr>userColl := updateOne (\<lambda>u. u_id u = i) f (userColl d)\<rparr>) j =
           (if i = j then map_option f (findById d j) else findById d j)"
  using assms by (simp add: findById_def find_updateOne)


lemma find_by_unique_key:
  "distinct (map g xs) \<Longrightarrow> x \<in> set xs \<Longrightarrow> find (\<lambda>y. g y = g x) xs = Some x"
  by (induction xs) force+

lemma findOne_mem:
  "findOneByAccountAndName d acct nm = Some u \<Longrightarrow> u \<in> set (userColl d)"
  by (auto simp: findOneByAccountAndName_def find_Some_iff)

lemma findById_of_stored:
  "distinct (map u_id (userColl d)) \<Longrightarrow> u \<in> set (userColl d) \<Longrightarrow> findById d (u_id u) = Some u"
  by (simp add: findById_def find_by_unique_key)

lemma updateOne_pred:
  assumes "\<forall>x \<in> set xs. P x" and "\<And>x. x \<in> set xs \<Longrightarrow> p x \<Longrightarrow> P x \<Longrightarrow> P (f x)"
  shows "\<forall>x \<in> set (updateOne p f xs). P x"
  using assms by (induction xs) auto

lemma updateOne_unique_key:
  "distinct (map g xs) \<Longrightarrow>
   updateOne (\<lambda>x. g x = i) f xs = map (\<lambda>x. if g x = i then f x else x) xs"
proof (induction xs)
  case Nil
  show ?case by simp
next
  case (Cons x xs)
  show ?case
  proof (cases "g x = i")
    case True
    with Cons.prems have "i \<notin> g ` set xs"
      by simp
    then have "\<forall>y \<in> set xs. g y \<noteq> i"
      by blast
    then have "map (\<lambda>x. if g x = i then f x else x) xs = xs"
      by (simp add: map_idI)
    with True show ?thesis
      by simp
  next
    case False
    with Cons show ?thesis
      by simp
  qed
qed

lemma map_key_updateOne:
  "(\<And>x. g (f x) = g x) \<Longrightarrow> map g (updateOne p f xs) = map g xs"
  by (induction xs) simp_all

lemma ids_saveUser: "map u_id (userColl (saveUser d loaded doc)) = map u_id (userColl d)"
  by (simp add: saveUser_def map_key_updateOne)

lemma userColl_saveTransaction: "userColl (saveTransaction d t) = userColl d"
  by (simp add: saveTransaction_def)

lemma txnColl_saveTransaction: "txnColl (saveTransaction d t) = txnColl d @ [t]"
  by (simp add: saveTransaction_def)

section \<open>Facts about the example data\<close>



lemma findById_db1_erin: "findById db1 4 = Some erin"
  by (simp add: findById_def db1_def alice_def erin_def)

lemma findById_db1_frank: "findById db1 5 = Some frank"
  by (simp add: findById_def db1_def alice_def erin_def frank_def)

lemma findOne_db1_erin: "findOneByAccountAndName db1 ''4000000000'' ''Erin'' = Some erin"
  by (simp add: findOneByAccountAndName_def db1_def alice_def erin_def)

text \<open>The roundings the examples meet.\<close>

lemma roundToDouble_2p53_plus_1: "roundToDouble 9007199254740993 = 9007199254740992"
proof -
  have "roundHalfEven (9007199254740993 / 2) = 4503599627370496"
    by (simp add: roundHalfEven_def Let_def)
  then show ?thesis
    by (simp add: roundToDouble_even_grid)
qed

lemma roundToDouble_2p53_minus_1: "roundToDouble 9007199254740991 = 9007199254740991"
  using roundToDouble_of_int [of 9007199254740991] by simp

lemma roundToDouble_2p54_minus_1: "roundToDouble 18014398509481983 = 18014398509481984"
proof -
  have "roundHalfEven (18014398509481983 / 2) = 9007199254740992"
    by (simp add: roundHalfEven_def Let_def)
  then show ?thesis
    by (simp add: roundToDouble_even_grid)
qed

text \<open>What a transfer of 1 by the account that holds \<open>2^53\<close> to itself leaves.\<close>

lemma erin_self_transfer:
  "fst (post_transfer env0 db1 4 ''4000000000'' 1 ''Erin'') =
     \<lparr>userColl = [alice, erin\<lparr>u_balance := 9007199254740991\<rparr>, frank],
      txnColl =
        [\<lparr>t_userId = 4, t_type = ''transfer_sent'', t_amount = 1,
          t_balance = 9007199254740991, t_recipientId = Some 4,
          t_recipientName = Some ''Erin'', t_senderId = None,
          t_senderName = None, t_date = dateNow env0 0\<rparr>,
         \<lparr>t_userId = 4, t_type = ''transfer_received'', t_amount = 1,
          t_balance = 9007199254740992, t_recipientId = None,
          t_recipientName = None, t_senderId = Some 4,
          t_senderName = Some ''Erin'', t_date = dateNow env0 1\<rparr>]\<rparr> \<and>
   status (snd (post_transfer env0 db1 4 ''4000000000'' 1 ''Erin'')) = 200"
proof -
  have bal: "u_balance erin = 9007199254740992" "u_id erin = 4" "u_name erin = ''Erin''"
    "u_id alice = 1"
    by (simp_all add: alice_def erin_def)
  show ?thesis
    using findById_db1_erin findOne_db1_erin
    by (simp add: post_transfer_def transfer_try_def Let_def bal numberSub_def numberAdd_def
        roundToDouble_2p53_minus_1 roundToDouble_2p53_plus_1 saveUser_def saveTransaction_def
        db1_def)
qed


section \<open>Withdrawals beyond the balance\<close>

text \<open>
  C4. A \<^verbatim>\<open>withdraw\<close> request for an existing account with an amount above the
  account's balance is answered 400 with the message \<^verbatim>\<open>Insufficient balance\<close>
  (the InsufficientFunds failure), and the database is the one the request found:
  the balance is unchanged and no record is appended.
\<close>

theorem withdraw_insufficient:
  assumes "findById d userId = Some user" and "u_balance user < amount"
  shows "post_transaction e d userId ''withdraw'' amount =
           (d, Response 400 (Message ''Insufficient balance''))"
  using assms by (simp add: post_transaction_def transaction_try_def)

theorem withdraw_insufficient_witness:
  "findById db0 1 = Some alice \<and> u_balance alice < 200 \<and>
   post_transaction env0 db0 1 ''withdraw'' 200 =
     (db0, Response 400 (Message ''Insufficient balance''))"
proof -
  have short: "u_balance alice < 200"
    by (simp add: alice_def)
  from withdraw_insufficient [OF findById_db0_alice short, of env0] findById_db0_alice short
  show ?thesis
    by simp
qed

section \<open>Resolution of the two parties of a transfer\<close>

text \<open>
  C7. The recipient of a transfer is the account found by account number and display
  name together. When no stored account has both the given account number and the
  given name, or when no stored account has the sender's id, the request is answered
  400 with the message \<^verbatim>\<open>Invalid sender or recipient\<close> (the InvalidCounterparty
  failure) and the database is the one the request found.
\<close>

theorem transfer_invalid_counterparty:
  assumes "(\<forall>u \<in> set (userColl d).
              \<not> (u_accountNumber u = Some recipientAccountNumber \<and> u_name u = recipientName))
           \<or> (\<forall>u \<in> set (userColl d). u_id u \<noteq> senderId)"
  shows "post_transfer e d senderId recipientAccountNumber amount recipientName =
           (d, Response 400 (Message ''Invalid sender or recipient''))"
proof -
  from assms have "findOneByAccountAndName d recipientAccountNumber recipientName = None
                   \<or> findById d senderId = None"
    by (simp add: findOne_None_iff findById_None_iff)
  then show ?thesis
    by (auto simp: post_transfer_def transfer_try_def split: option.splits)
qed

theorem transfer_invalid_counterparty_witness:
  "post_transfer env0 db0 1 ''2345678901'' 10 ''Alice'' =
     (db0, Response 400 (Message ''Invalid sender or recipient'')) \<and>
   post_transfer env0 db0 7 ''2345678901'' 10 ''Bob'' =
     (db0, Response 400 (Message ''Invalid sender or recipient''))"
proof -
  have no_match: "\<forall>u \<in> set (userColl db0).
                    \<not> (u_accountNumber u = Some ''2345678901'' \<and> u_name u = ''Alice'')"
    by (simp add: db0_def alice_def bob_def)
  have no_sender: "\<forall>u \<in> set (userColl db0). u_id u \<noteq> 7"
    by (simp add: db0_def alice_def bob_def)
  have a: "post_transfer env0 db0 1 ''2345678901'' 10 ''Alice'' =
             (db0, Response 400 (Message ''Invalid sender or recipient''))"
    by (rule transfer_invalid_counterparty) (use no_match in blast)
  have b: "post_transfer env0 db0 7 ''2345678901'' 10 ''Bob'' =
             (db0, Response 400 (Message ''Invalid sender or recipient''))"
    by (rule transfer_invalid_counterparty) (use no_sender in blast)
  from a b show ?thesis by simp
qed

section \<open>Registration\<close>

text \<open>
  C8. When a stored account already has the email, \<^verbatim>\<open>/api/signup\<close> answers 400 with
  \<^verbatim>\<open>Email already registered\<close> (the Conflict failure) and the database is unchanged.
  When none has it, exactly one account is added: its credential is the value
  \<^verbatim>\<open>bcrypt.hash(password, 10)\<close> returned (the request's password itself is stored
  nowhere), its balance is 0, its embedded history is empty and it has no account
  number; the reply is 201 with a fixed message, so it carries no credential.
\<close>

theorem signup_conflict_or_created:
  "(if \<exists>u \<in> set (userColl d). u_email u = email
    then post_signup e d name email password =
           (d, Response 400 (Message ''Email already registered''))
    else post_signup e d name email password =
           (d\<lparr>userColl := userColl d @
                [\<lparr>u_id = newObjectId e, u_name = name, u_email = email,
                  u_password = bcryptHash e password, u_accountNumber = None,
                  u_balance = 0, u_transactions = []\<rparr>]\<rparr>,
            Response 201 (Message ''User created successfully'')))"
proof (cases "findOneByEmail d email")
  case None
  then have "\<not> (\<exists>u \<in> set (userColl d). u_email u = email)"
    using findOneByEmail_None_iff [of d email] by auto
  with None show ?thesis
    by (simp add: post_signup_def)
next
  case (Some existingUser)
  then have "\<exists>u \<in> set (userColl d). u_email u = email"
    using findOneByEmail_None_iff [of d email] by auto
  with Some show ?thesis
    by (simp add: post_signup_def)
qed

theorem signup_conflict_or_created_witness:
  "post_signup env0 db0 ''Al'' ''alice@example.com'' ''secret'' =
     (db0, Response 400 (Message ''Email already registered'')) \<and>
   post_signup env0 db0 ''Carol'' ''carol@example.com'' ''secret'' =
     (db0\<lparr>userColl := [alice, bob,
            \<lparr>u_id = 3, u_name = ''Carol'', u_email = ''carol@example.com'',
             u_password = ''$2a$10$examplehash'', u_accountNumber = None,
             u_balance = 0, u_transactions = []\<rparr>]\<rparr>,
      Response 201 (Message ''User created successfully''))"
  using signup_conflict_or_created [of db0 "''alice@example.com''" env0 "''Al''" "''secret''"]
    signup_conflict_or_created [of db0 "''carol@example.com''" env0 "''Carol''" "''secret''"]
  by (simp add: db0_def alice_def bob_def env0_def)

section \<open>Listing the records of an account\<close>

text \<open>
  C10. \<^verbatim>\<open>GET /api/transactions/:userId\<close> leaves the database as it is and answers
  200 with a list that holds exactly the records the account owns (each as often as
  it is stored) in non-increasing order of their dates, the most recent first.
\<close>

theorem transactions_listed:
  "get_transactions d userId = (d, Response 200 (TransactionsBody (findTransactions d userId))) \<and>
   mset (findTransactions d userId) = mset (filter (\<lambda>t. t_userId t = userId) (txnColl d)) \<and>
   sorted_wrt (\<lambda>a b. t_date b \<le> t_date a) (findTransactions d userId)"
proof -
  let ?ts = "filter (\<lambda>t. t_userId t = userId) (txnColl d)"
  have "sorted (map (\<lambda>t. - t_date t) (sort_key (\<lambda>t. - t_date t) ?ts))"
    by (rule sorted_sort_key)
  then have "sorted_wrt (\<lambda>a b. t_date b \<le> t_date a) (sort_key (\<lambda>t. - t_date t) ?ts)"
    by (simp add: sorted_map)
  then show ?thesis
    by (simp add: get_transactions_def findTransactions_def)
qed

section \<open>Account numbers\<close>

lemma length_digits:
  "10 ^ k \<le> n \<Longrightarrow> n < 10 ^ Suc k \<Longrightarrow> length (digits n) = Suc k"
proof (induction k arbitrary: n)
  case 0
  then show ?case
    by (simp add: digits.simps)
next
  case (Suc k)
  have "(1::nat) \<le> 10 ^ k"
    by simp
  moreover from Suc.prems(1) have "10 * 10 ^ k \<le> n"
    by simp
  ultimately have big: "\<not> n < 10"
    by linarith
  from Suc.prems(1) have "10 * 10 ^ k \<le> n"
    by simp
  moreover from Suc.prems(2) have "n < 10 * (10 * 10 ^ k)"
    by simp
  ultimately have "10 ^ k \<le> n div 10" and "n div 10 < 10 * 10 ^ k"
    by linarith+
  then have "length (digits (n div 10)) = Suc k"
    by (simp add: Suc.IH)
  with big show ?case
    by (subst digits.simps) simp
qed

lemma digitChar_decimal: "digitChar k \<in> set ''0123456789''"
proof -
  have "k mod 10 < length ''0123456789''"
    by simp
  then have "''0123456789'' ! (k mod 10) \<in> set ''0123456789''"
    by (rule nth_mem)
  then show ?thesis
    by (simp only: digitChar_def)
qed

lemma digits_decimal: "c \<in> set (digits n) \<Longrightarrow> c \<in> set ''0123456789''"
proof (induction n rule: digits.induct)
  case (1 n)
  show ?case
  proof (cases "n < 10")
    case True
    with "1.prems" have "c = digitChar n"
      by (simp add: digits.simps)
    then show ?thesis
      using digitChar_decimal by blast
  next
    case False
    with "1.prems" have "c \<in> set (digits (n div 10)) \<or> c = digitChar (n mod 10)"
      by (subst (asm) digits.simps) auto
    then show ?thesis
      using "1.IH" [OF False] digitChar_decimal by blast
  qed
qed

text \<open>
  C9. For an existing account and every value of \<^verbatim>\<open>Math.random()\<close>, a Number in
  \<open>[0, 1)\<close>, \<^verbatim>\<open>/api/generate-account\<close> generates a number between 1,000,000,000
  and 9,999,999,999 inclusive, whose decimal string has exactly ten characters, all
  of them decimal digits; it stores that string as the account's account number and
  answers 200 with it. No other field of the account changes, no other account
  changes, and no record is written.
\<close>

theorem account_number_generated:
  assumes "findById d userId = Some user"
    and "isNumber (mathRandom e)" and "0 \<le> mathRandom e" and "mathRandom e < 1"
  shows "(let n = generateAccountNumber (mathRandom e)
          in case post_generate_account e d userId of
               (d', r) \<Rightarrow>
                 1000000000 \<le> n \<and> n \<le> 9999999999 \<and>
                 length (toString n) = 10 \<and>
                 (\<forall>c \<in> set (toString n). c \<in> set ''0123456789'') \<and>
                 r = Response 200 (AccountNumberBody (Some (toString n))) \<and>
                 findById d' userId = Some (user\<lparr>u_accountNumber := Some (toString n)\<rparr>) \<and>
                 (\<forall>i. i \<noteq> userId \<longrightarrow> findById d' i = findById d i) \<and>
                 txnColl d' = txnColl d)"
proof -
  define n where "n = generateAccountNumber (mathRandom e)"
  have range: "1000000000 \<le> n \<and> n \<le> 9999999999"
    unfolding n_def using assms(2,3,4) by (rule generateAccountNumber_range_Number)
  then have str: "toString n = digits (nat n)"
    by (simp add: toString_def)
  from range have "(1000000000::nat) \<le> nat n" and "nat n < (10000000000::nat)"
    by linarith+
  then have "10 ^ 9 \<le> nat n" and "nat n < 10 ^ Suc 9"
    by simp_all
  then have "length (digits (nat n)) = Suc 9"
    by (rule length_digits)
  with str have len: "length (toString n) = 10"
    by simp
  from str have dec: "\<forall>c \<in> set (toString n). c \<in> set ''0123456789''"
    using digits_decimal by simp
  let ?f = "\<lambda>u. u\<lparr>u_accountNumber := Some (toString n)\<rparr>"
  let ?d' = "d\<lparr>userColl := updateOne (\<lambda>u. u_id u = userId) ?f (userColl d)\<rparr>"
  have run: "post_generate_account e d userId =
               (?d', Response 200 (AccountNumberBody (Some (toString n))))"
    using assms(1) by (simp add: post_generate_account_def findByIdAndUpdate_def n_def Let_def)
  have stored: "findById ?d' userId = Some (?f user)"
    using assms(1) by (simp add: findById_updateOne)
  have others: "\<forall>i. i \<noteq> userId \<longrightarrow> findById ?d' i = findById d i"
    by (simp add: findById_updateOne)
  have ledger: "txnColl ?d' = txnColl d"
    by simp
  from range len dec stored others ledger show ?thesis
    unfolding n_def [symmetric] Let_def run by simp
qed

theorem account_number_generated_witness:
  "findById db0 1 = Some alice \<and>
   isNumber (mathRandom env1) \<and> 0 \<le> mathRandom env1 \<and> mathRandom env1 < 1 \<and>
   generateAccountNumber (mathRandom env1) = 6277768872 \<and>
   snd (post_generate_account env1 db0 1) =
     Response 200 (AccountNumberBody (Some ''6277768872'')) \<and>
   findById (fst (post_generate_account env1 db0 1)) 1 =
     Some (alice\<lparr>u_accountNumber := Some ''6277768872''\<rparr>)"
proof -
  have r: "mathRandom env1 = real 5281990650063734 / 2 ^ 53"
    by (simp add: env1_def)
  have "isNumber (real 5281990650063734 / 2 ^ 53)"
    by (rule isNumber_unit_double) simp_all
  then have num: "isNumber (mathRandom env1)"
    by (simp only: r)
  have lo: "0 \<le> mathRandom env1" and hi: "mathRandom env1 < 1"
    by (simp_all add: env1_def)
  have n: "generateAccountNumber (mathRandom env1) = 6277768872"
    using generateAccountNumber_rounded by (simp add: env1_def)
  have s: "toString 6277768872 = ''6277768872''"
    by (simp add: toString_def digits.simps digitChar_def)
  have "generateAccountNumber (mathRandom env1) = 6277768872 \<and>
        snd (post_generate_account env1 db0 1) =
          Response 200 (AccountNumberBody (Some ''6277768872'')) \<and>
        findById (fst (post_generate_account env1 db0 1)) 1 =
          Some (alice\<lparr>u_accountNumber := Some ''6277768872''\<rparr>)"
    using account_number_generated [OF findById_db0_alice num lo hi]
    by (simp add: n s Let_def case_prod_beta)
  with findById_db0_alice num lo hi show ?thesis
    by blast
qed

section \<open>Amounts that are not positive\<close>




text \<open>
  So is the condition that the result is a Number: a \<^verbatim>\<open>deposit\<close> of \<open>-1\<close> into
  the account that holds \<open>2^54\<close> is answered 200 and leaves the balance as it
  was, since \<open>2^54 - 1\<close> rounds to \<open>2^54\<close>.
\<close>

lemma deposit_rounded_away:
  "post_transaction env0 db1 5 ''deposit'' (- 1) =
     (db1\<lparr>txnColl := [\<lparr>t_userId = 5, t_type = ''deposit'', t_amount = - 1,
                         t_balance = 18014398509481984, t_recipientId = None,
                         t_recipientName = None, t_senderId = None,
                         t_senderName = None, t_date = dateNow env0 0\<rparr>]\<rparr>,
      Response 200 (UserTransactionBody frank
        \<lparr>t_userId = 5, t_type = ''deposit'', t_amount = - 1,
         t_balance = 18014398509481984, t_recipientId = None,
         t_recipientName = None, t_senderId = None,
         t_senderName = None, t_date = dateNow env0 0\<rparr>))"
proof -
  have bal: "u_balance frank = 18014398509481984"
    by (simp add: frank_def)
  have same: "frank\<lparr>u_balance := 18014398509481984\<rparr> = frank"
    by (simp add: frank_def)
  have ledger: "txnColl db1 = []"
    by (simp add: db1_def)
  show ?thesis
    using findById_db1_frank
    by (simp add: post_transaction_def transaction_try_def Let_def numberAdd_def bal
        roundToDouble_2p54_minus_1 same saveUser_def saveTransaction_def ledger)
qed

section \<open>A transfer to oneself\<close>




section \<open>A transfer between two accounts\<close>




section \<open>Balances stay non-negative\<close>

lemma nonNegative_saveUser:
  assumes "balancesNonNegative d" and "0 \<le> u_balance doc"
  shows "balancesNonNegative (saveUser d loaded doc)"
proof (cases "u_balance doc = u_balance loaded")
  case True
  with assms(1) show ?thesis
    by (simp add: saveUser_def)
next
  case False
  have "\<forall>u \<in> set (updateOne (\<lambda>u. u_id u = u_id doc) (\<lambda>u. u\<lparr>u_balance := u_balance doc\<rparr>)
            (userColl d)). 0 \<le> u_balance u"
    using assms by (intro updateOne_pred) (simp_all add: balancesNonNegative_def)
  with False show ?thesis
    by (simp add: balancesNonNegative_def saveUser_def)
qed

lemma nonNegative_saveTransaction:
  "balancesNonNegative (saveTransaction d t) = balancesNonNegative d"
  by (simp add: balancesNonNegative_def saveTransaction_def)

lemma nonNegative_signup:
  "balancesNonNegative d \<Longrightarrow> balancesNonNegative (fst (post_signup e d name email password))"
  by (simp add: post_signup_def balancesNonNegative_def Let_def split: option.splits)

lemma nonNegative_generate_account:
  assumes "balancesNonNegative d"
  shows "balancesNonNegative (fst (post_generate_account e d userId))"
proof (cases "findById d userId")
  case None
  with assms show ?thesis
    by (simp add: post_generate_account_def findByIdAndUpdate_def Let_def)
next
  case (Some user)
  let ?f = "\<lambda>u. u\<lparr>u_accountNumber :=
                   Some (toString (generateAccountNumber (mathRandom e)))\<rparr>"
  have "\<forall>u \<in> set (updateOne (\<lambda>u. u_id u = userId) ?f (userColl d)). 0 \<le> u_balance u"
    using assms by (intro updateOne_pred) (simp_all add: balancesNonNegative_def)
  with Some show ?thesis
    by (simp add: post_generate_account_def findByIdAndUpdate_def Let_def
        balancesNonNegative_def)
qed

lemma nonNegative_transaction:
  assumes "balancesNonNegative d" and "type = ''deposit'' \<or> type = ''withdraw''"
    and "0 \<le> amount"
  shows "balancesNonNegative (fst (post_transaction e d userId type amount))"
proof (cases "findById d userId")
  case None
  with assms(1) show ?thesis
    by (simp add: post_transaction_def transaction_try_def)
next
  case (Some user)
  then have "0 \<le> u_balance user"
    using assms(1) findById_mem [of d userId user] by (simp add: balancesNonNegative_def)
  with Some assms show ?thesis
    by (auto simp: post_transaction_def transaction_try_def Let_def numberAdd_def
        nonNegative_saveTransaction intro!: nonNegative_saveUser roundToDouble_nonneg)
qed

lemma nonNegative_transfer:
  assumes "balancesNonNegative d" and "0 \<le> amount"
  shows "balancesNonNegative
           (fst (post_transfer e d senderId recipientAccountNumber amount recipientName))"
proof (cases "transfer_try e d senderId recipientAccountNumber amount recipientName")
  case (Inl message)
  with assms(1) show ?thesis
    by (simp add: post_transfer_def)
next
  case (Inr ok)
  then obtain sender recipient where
    s: "findById d senderId = Some sender" and
    r: "findOneByAccountAndName d recipientAccountNumber recipientName = Some recipient" and
    enough: "\<not> u_balance sender < amount"
    by (auto simp: transfer_try_def split: option.splits if_splits)
  from s assms(1) have "0 \<le> u_balance sender"
    using findById_mem [of d senderId sender] by (simp add: balancesNonNegative_def)
  from r assms(1) have "0 \<le> u_balance recipient"
    using findOne_mem [of d recipientAccountNumber recipientName recipient]
    by (simp add: balancesNonNegative_def)
  with assms(2) have credit: "0 \<le> numberAdd (u_balance recipient) amount"
    by (simp add: numberAdd_def roundToDouble_nonneg)
  from enough have debit: "0 \<le> numberSub (u_balance sender) amount"
    by (simp add: numberSub_def roundToDouble_nonneg)
  from assms(1) enough s r credit debit show ?thesis
    by (simp add: post_transfer_def transfer_try_def Let_def nonNegative_saveTransaction
        nonNegative_saveUser)
qed

text \<open>
  C1, as the code has it. Started from a database in which every balance is at
  least 0, every request whose amount (when it carries one) is at least 0, a
  sign-up, an account-number request, a \<^verbatim>\<open>deposit\<close> or \<^verbatim>\<open>withdraw\<close>, a
  transfer, or a listing, ends in a database in which every balance is at least 0.
\<close>

theorem nonnegative_balances_preserved:
  assumes "balancesNonNegative d" and "knownKind req" and "amountNonNegative req"
  shows "balancesNonNegative (fst (handle e d req))"
proof (cases req)
  case (Signup name email password)
  with assms(1) show ?thesis
    by (simp add: nonNegative_signup)
next
  case (GenerateAccount userId)
  with assms(1) show ?thesis
    by (simp add: nonNegative_generate_account)
next
  case (Transaction userId type amount)
  with assms show ?thesis
    by (simp add: nonNegative_transaction)
next
  case (Transfer senderId recipientAccountNumber amount recipientName)
  with assms show ?thesis
    by (simp add: nonNegative_transfer)
next
  case (GetTransactions userId)
  with assms(1) show ?thesis
    by (simp add: get_transactions_def)
qed

theorem nonnegative_balances_preserved_witness:
  "balancesNonNegative db0 \<and> knownKind (Transfer 1 ''2345678901'' 100 ''Bob'') \<and>
   amountNonNegative (Transfer 1 ''2345678901'' 100 ''Bob'') \<and>
   balancesNonNegative (fst (handle env0 db0 (Transfer 1 ''2345678901'' 100 ''Bob'')))"
proof -
  have start: "balancesNonNegative db0"
    by (simp add: balancesNonNegative_def db0_def alice_def bob_def)
  have kind: "knownKind (Transfer 1 ''2345678901'' 100 ''Bob'')"
    by simp
  have amount: "amountNonNegative (Transfer 1 ''2345678901'' 100 ''Bob'')"
    by simp
  from nonnegative_balances_preserved [OF start kind amount, of env0] start kind amount
  show ?thesis
    by blast
qed

text \<open>
  Without the condition on the amount the property fails: the handlers do not check
  the sign of the amount, and a \<^verbatim>\<open>deposit\<close> of \<open>-5\<close> into the account that holds
  0 leaves it at \<open>-5\<close>.
\<close>

theorem negative_deposit_counterexample:
  "balancesNonNegative db0 \<and> knownKind (Transaction 2 ''deposit'' (- 5)) \<and>
   \<not> balancesNonNegative (fst (handle env0 db0 (Transaction 2 ''deposit'' (- 5))))"
proof -
  have "roundToDouble (- 5) = - 5"
    using roundToDouble_of_int [of "- 5"] by simp
  then show ?thesis
    by (simp add: balancesNonNegative_def db0_def alice_def bob_def post_transaction_def
        transaction_try_def findById_def saveUser_def saveTransaction_def Let_def
        numberAdd_def)
qed

section \<open>The stored balance and the last record\<close>

lemma lastRecord_alt:
  "lastRecord d i =
     (if filter (\<lambda>t. t_userId t = i) (txnColl d) = [] then None
      else Some (last (filter (\<lambda>t. t_userId t = i) (txnColl d))))"
  by (simp add: lastRecord_def split: list.splits)

lemma lastRecord_saveTransaction:
  "lastRecord (saveTransaction d t) i = (if t_userId t = i then Some t else lastRecord d i)"
  by (simp add: lastRecord_alt txnColl_saveTransaction)

lemma lastRecord_saveUser: "lastRecord (saveUser d loaded doc) i = lastRecord d i"
  by (simp add: lastRecord_def txnColl_saveUser)

lemma lastRecord_no_record:
  "\<forall>t \<in> set (txnColl d). t_userId t \<noteq> i \<Longrightarrow> lastRecord d i = None"
  by (simp add: lastRecord_alt filter_empty_conv)

lemma wellFormed_saveUser: "wellFormed d \<Longrightarrow> wellFormed (saveUser d loaded doc)"
proof -
  assume wf: "wellFormed d"
  have "u_id ` set (userColl (saveUser d loaded doc)) = u_id ` set (userColl d)"
    using ids_saveUser [of d loaded doc] by (metis set_map)
  with wf show ?thesis
    by (simp add: wellFormed_def ids_saveUser txnColl_saveUser)
qed

lemma wellFormed_saveTransaction:
  "wellFormed d \<Longrightarrow> t_userId t \<in> u_id ` set (userColl d) \<Longrightarrow>
   wellFormed (saveTransaction d t)"
  by (simp add: wellFormed_def saveTransaction_def)

text \<open>
  One balance write and the record that goes with it. \<open>cur\<close> is the stored document
  when the write is sent: if the in-memory copy is unmodified nothing is sent, and
  the stored balance must already be the one the record carries.
\<close>

lemma matches_after_write:
  assumes "distinct (map u_id (userColl d))" and "balanceMatchesLedger d"
    and "findById d (u_id doc) = Some cur"
    and "u_balance doc = u_balance loaded \<longrightarrow> u_balance cur = u_balance doc"
    and "t_userId t = u_id doc" and "t_balance t = u_balance doc"
  shows "balanceMatchesLedger (saveTransaction (saveUser d loaded doc) t)"
proof -
  have last: "lastRecord (saveTransaction (saveUser d loaded doc) t) i =
                (if u_id doc = i then Some t else lastRecord d i)" for i
    using assms(5) by (simp add: lastRecord_saveTransaction lastRecord_saveUser)
  show ?thesis
  proof (cases "u_balance doc = u_balance loaded")
    case True
    then have users: "userColl (saveTransaction (saveUser d loaded doc) t) = userColl d"
      by (simp add: userColl_saveTransaction saveUser_def)
    have "u_balance u = t_balance t" if "u \<in> set (userColl d)" and "u_id u = u_id doc" for u
    proof -
      from assms(1) that(1) have "findById d (u_id u) = Some u"
        by (rule findById_of_stored)
      with assms(3) that(2) have "u = cur"
        by simp
      with True assms(4,6) show ?thesis
        by simp
    qed
    then show ?thesis
      unfolding balanceMatchesLedger_def users
      using assms(2) by (auto simp: last balanceMatchesLedger_def)
  next
    case False
    then have users: "userColl (saveTransaction (saveUser d loaded doc) t) =
                   map (\<lambda>u. if u_id u = u_id doc then u\<lparr>u_balance := u_balance doc\<rparr> else u)
                     (userColl d)"
      using assms(1) by (simp add: userColl_saveTransaction saveUser_def updateOne_unique_key)
    show ?thesis
      unfolding balanceMatchesLedger_def users
      using assms(2,6) by (auto simp: last balanceMatchesLedger_def)
  qed
qed

lemma save_commute:
  "saveTransaction (saveUser d loaded doc) t = saveUser (saveTransaction d t) loaded doc"
  by (simp add: saveTransaction_def saveUser_def)

lemma invariant_after_write:
  assumes "ledgerInvariant d" and "findById d (u_id doc) = Some cur"
    and "u_balance doc = u_balance loaded \<longrightarrow> u_balance cur = u_balance doc"
    and "t_userId t = u_id doc" and "t_balance t = u_balance doc"
  shows "ledgerInvariant (saveTransaction (saveUser d loaded doc) t)"
proof -
  from assms(1) have wf: "wellFormed d" and ok: "balanceMatchesLedger d"
    by (simp_all add: ledgerInvariant_def)
  from wf have "distinct (map u_id (userColl d))"
    by (simp add: wellFormed_def)
  then have "balanceMatchesLedger (saveTransaction (saveUser d loaded doc) t)"
    using ok assms(2,3,4,5) by (rule matches_after_write)
  moreover have "wellFormed (saveTransaction (saveUser d loaded doc) t)"
  proof (rule wellFormed_saveTransaction)
    show "wellFormed (saveUser d loaded doc)"
      using wf by (rule wellFormed_saveUser)
    have "u_id ` set (userColl (saveUser d loaded doc)) = u_id ` set (userColl d)"
      using ids_saveUser [of d loaded doc] by (metis set_map)
    moreover have "u_id doc \<in> u_id ` set (userColl d)"
    proof -
      from assms(2) have "cur \<in> set (userColl d)"
        by (rule findById_mem)
      moreover from assms(2) have "u_id cur = u_id doc"
        by (rule findById_id)
      ultimately show ?thesis
        by (metis imageI)
    qed
    ultimately show "t_userId t \<in> u_id ` set (userColl (saveUser d loaded doc))"
      using assms(4) by simp
  qed
  ultimately show ?thesis
    by (simp add: ledgerInvariant_def)
qed

lemma invariant_signup:
  assumes "ledgerInvariant d" and "newObjectId e \<notin> u_id ` set (userColl d)"
  shows "ledgerInvariant (fst (post_signup e d name email password))"
proof (cases "findOneByEmail d email")
  case (Some existingUser)
  with assms(1) show ?thesis
    by (simp add: post_signup_def)
next
  case None
  from assms(1) have owned: "\<forall>t \<in> set (txnColl d). t_userId t \<in> u_id ` set (userColl d)"
    by (simp add: ledgerInvariant_def wellFormed_def)
  have fresh: "\<forall>t \<in> set (txnColl d). t_userId t \<noteq> newObjectId e"
  proof (intro ballI notI)
    fix t
    assume "t \<in> set (txnColl d)" and "t_userId t = newObjectId e"
    with owned have "newObjectId e \<in> u_id ` set (userColl d)"
      by metis
    with assms(2) show False
      by simp
  qed
  let ?user = "\<lparr>u_id = newObjectId e, u_name = name, u_email = email,
                 u_password = bcryptHash e password, u_accountNumber = None,
                 u_balance = 0, u_transactions = []\<rparr>"
  let ?d' = "d\<lparr>userColl := userColl d @ [?user]\<rparr>"
  have last: "lastRecord ?d' i = lastRecord d i" for i
    by (simp add: lastRecord_def)
  from fresh have none: "lastRecord d (newObjectId e) = None"
    by (rule lastRecord_no_record)
  from assms have "wellFormed ?d'"
    by (auto simp: ledgerInvariant_def wellFormed_def)
  moreover from assms(1) have "balanceMatchesLedger ?d'"
    unfolding balanceMatchesLedger_def ledgerInvariant_def
    by (simp add: last none)
  ultimately show ?thesis
    using None by (simp add: post_signup_def Let_def ledgerInvariant_def)
qed

lemma invariant_generate_account:
  assumes "ledgerInvariant d"
  shows "ledgerInvariant (fst (post_generate_account e d userId))"
proof (cases "findById d userId")
  case None
  with assms show ?thesis
    by (simp add: post_generate_account_def findByIdAndUpdate_def Let_def)
next
  case (Some user)
  let ?f = "\<lambda>u. u\<lparr>u_accountNumber :=
                   Some (toString (generateAccountNumber (mathRandom e)))\<rparr>"
  let ?d' = "d\<lparr>userColl := updateOne (\<lambda>u. u_id u = userId) ?f (userColl d)\<rparr>"
  from assms have wf: "wellFormed d" and ok: "balanceMatchesLedger d"
    by (simp_all add: ledgerInvariant_def)
  have ids: "map u_id (userColl ?d') = map u_id (userColl d)"
    by (simp add: map_key_updateOne)
  then have "u_id ` set (userColl ?d') = u_id ` set (userColl d)"
    by (metis set_map)
  with wf ids have "wellFormed ?d'"
    by (simp add: wellFormed_def)
  moreover have last: "lastRecord ?d' i = lastRecord d i" for i
    by (simp add: lastRecord_def)
  have "\<forall>u \<in> set (updateOne (\<lambda>u. u_id u = userId) ?f (userColl d)).
          case lastRecord d (u_id u) of None \<Rightarrow> True | Some t \<Rightarrow> u_balance u = t_balance t"
    using ok by (intro updateOne_pred) (simp_all add: balanceMatchesLedger_def split: option.splits)
  then have "balanceMatchesLedger ?d'"
    by (simp add: balanceMatchesLedger_def last)
  ultimately show ?thesis
    using Some by (simp add: post_generate_account_def findByIdAndUpdate_def Let_def
        ledgerInvariant_def)
qed

lemma invariant_transaction:
  assumes "ledgerInvariant d"
  shows "ledgerInvariant (fst (post_transaction e d userId type amount))"
proof (cases "transaction_try e d userId type amount")
  case (Inl message)
  with assms show ?thesis
    by (simp add: post_transaction_def)
next
  case (Inr ok)
  then obtain user where u: "findById d userId = Some user"
    by (auto simp: transaction_try_def split: option.splits)
  then have id: "u_id user = userId"
    by (simp add: findById_id)
  let ?user' = "user\<lparr>u_balance :=
                      numberAdd (u_balance user)
                        (if type = ''deposit'' then amount else - amount)\<rparr>"
  let ?t = "\<lparr>t_userId = userId, t_type = type, t_amount = amount,
             t_balance = u_balance ?user', t_recipientId = None, t_recipientName = None,
             t_senderId = None, t_senderName = None, t_date = dateNow e 0\<rparr>"
  have "ledgerInvariant (saveTransaction (saveUser d user ?user') ?t)"
    using assms u id by (intro invariant_after_write [where cur = user]) auto
  with Inr u show ?thesis
    by (auto simp: post_transaction_def transaction_try_def Let_def split: if_splits)
qed

lemma invariant_transfer:
  assumes "ledgerInvariant d"
    and "\<not> creditAbsorbed d (Transfer senderId recipientAccountNumber amount recipientName)"
  shows "ledgerInvariant
           (fst (post_transfer e d senderId recipientAccountNumber amount recipientName))"
proof (cases "transfer_try e d senderId recipientAccountNumber amount recipientName")
  case (Inl message)
  with assms(1) show ?thesis
    by (simp add: post_transfer_def)
next
  case (Inr ok)
  then obtain sender recipient where
    s: "findById d senderId = Some sender" and
    r: "findOneByAccountAndName d recipientAccountNumber recipientName = Some recipient" and
    enough: "\<not> u_balance sender < amount"
    by (auto simp: transfer_try_def split: option.splits if_splits)
  let ?sender' = "sender\<lparr>u_balance := numberSub (u_balance sender) amount\<rparr>"
  let ?recipient' = "recipient\<lparr>u_balance := numberAdd (u_balance recipient) amount\<rparr>"
  let ?st = "\<lparr>t_userId = u_id ?sender', t_type = ''transfer_sent'', t_amount = amount,
              t_balance = u_balance ?sender', t_recipientId = Some (u_id ?recipient'),
              t_recipientName = Some (u_name ?recipient'), t_senderId = None,
              t_senderName = None, t_date = dateNow e 0\<rparr>"
  let ?rt = "\<lparr>t_userId = u_id ?recipient', t_type = ''transfer_received'',
              t_amount = amount, t_balance = u_balance ?recipient',
              t_recipientId = None, t_recipientName = None,
              t_senderId = Some (u_id ?sender'), t_senderName = Some (u_name ?sender'),
              t_date = dateNow e 1\<rparr>"
  let ?d1 = "saveTransaction (saveUser d sender ?sender') ?st"
  from s have sid: "u_id sender = senderId"
    by (rule findById_id)
  from assms(1) have ids: "distinct (map u_id (userColl d))"
    by (simp add: ledgerInvariant_def wellFormed_def)
  from r have "recipient \<in> set (userColl d)"
    by (rule findOne_mem)
  with ids have stored: "findById d (u_id recipient) = Some recipient"
    by (rule findById_of_stored)
  have one: "ledgerInvariant ?d1"
    using assms(1) s sid by (intro invariant_after_write [where cur = sender]) auto
  define cur where
    "cur = (if u_balance ?sender' \<noteq> u_balance sender \<and> u_id sender = u_id recipient
            then recipient\<lparr>u_balance := u_balance ?sender'\<rparr> else recipient)"
  have found: "findById ?d1 (u_id ?recipient') = Some cur"
    using stored by (simp add: findById_saveTransaction findById_saveUser cur_def)
  from assms(2) s r enough have
    "\<not> (u_id recipient = u_id sender \<and>
        numberAdd (u_balance recipient) amount = u_balance recipient \<and>
        numberSub (u_balance sender) amount \<noteq> u_balance sender)"
    by simp
  then have kept: "u_balance ?recipient' = u_balance recipient \<longrightarrow>
                   u_balance cur = u_balance ?recipient'"
    by (auto simp: cur_def)
  have two: "ledgerInvariant (saveTransaction (saveUser ?d1 recipient ?recipient') ?rt)"
    using one found kept by (rule invariant_after_write) simp_all
  have "saveTransaction
          (saveTransaction (saveUser (saveUser d sender ?sender') recipient ?recipient') ?st) ?rt
          = saveTransaction (saveUser ?d1 recipient ?recipient') ?rt"
    by (simp add: save_commute)
  with two s r enough show ?thesis
    by (simp add: post_transfer_def transfer_try_def Let_def)
qed

lemma invariant_handle:
  assumes "ledgerInvariant d" and "freshId e d req" and "\<not> creditAbsorbed d req"
  shows "ledgerInvariant (fst (handle e d req))"
proof (cases req)
  case (Signup name email password)
  with assms show ?thesis
    by (simp add: invariant_signup)
next
  case (GenerateAccount userId)
  with assms(1) show ?thesis
    by (simp add: invariant_generate_account)
next
  case (Transaction userId type amount)
  with assms(1) show ?thesis
    by (simp add: invariant_transaction)
next
  case (Transfer senderId recipientAccountNumber amount recipientName)
  from assms(3) have
    "\<not> creditAbsorbed d (Transfer senderId recipientAccountNumber amount recipientName)"
    unfolding Transfer .
  with assms(1) have
    "ledgerInvariant
       (fst (post_transfer e d senderId recipientAccountNumber amount recipientName))"
    by (rule invariant_transfer)
  then show ?thesis
    unfolding Transfer by simp
next
  case (GetTransactions userId)
  with assms(1) show ?thesis
    by (simp add: get_transactions_def)
qed

lemma invariant_run:
  "ledgerInvariant d \<Longrightarrow> freshIds d rs \<Longrightarrow> noCreditAbsorbed d rs \<Longrightarrow>
   ledgerInvariant (run d rs)"
proof (induction rs arbitrary: d)
  case Nil
  then show ?case by simp
next
  case (Cons step rs)
  obtain e req where step: "step = (e, req)"
    by (cases step)
  from Cons.prems have "ledgerInvariant (fst (handle e d req))"
    unfolding step by (simp add: invariant_handle)
  moreover from Cons.prems have "freshIds (fst (handle e d req)) rs"
    and "noCreditAbsorbed (fst (handle e d req)) rs"
    unfolding step by simp_all
  ultimately have "ledgerInvariant (run (fst (handle e d req)) rs)"
    by (rule Cons.IH)
  then show ?case
    unfolding step by simp
qed

lemma invariant_emptyDb: "ledgerInvariant emptyDb"
  by (simp add: ledgerInvariant_def wellFormed_def balanceMatchesLedger_def emptyDb_def)

text \<open>
  The credit of a transfer to oneself is not rounded away when balance + amount is
  a Number, as it is for integers of magnitude at most \<open>2^53\<close>.
\<close>

lemma exact_credit_not_absorbed:
  assumes "findById d senderId = Some a"
    and "findOneByAccountAndName d recipientAccountNumber recipientName = Some a"
    and "isNumber (u_balance a + amount)"
  shows "\<not> creditAbsorbed d (Transfer senderId recipientAccountNumber amount recipientName)"
proof
  assume "creditAbsorbed d (Transfer senderId recipientAccountNumber amount recipientName)"
  with assms(1,2) have credit: "numberAdd (u_balance a) amount = u_balance a"
    and debit: "numberSub (u_balance a) amount \<noteq> u_balance a"
    by simp_all
  from assms(3) credit have "amount = 0"
    by (simp add: numberAdd_def isNumber_def)
  with assms(3) have "numberSub (u_balance a) amount = u_balance a"
    by (simp add: numberSub_def isNumber_def)
  with debit show False
    by simp
qed

text \<open>
  C3, as the code has it. Start from a database in which \<^verbatim>\<open>_id\<close> is unique, every
  record is owned by a stored account, and the balance of every account that owns a
  record equals the balance field of its last record; the empty database is one.
  After every sequence of requests (each sign-up with a fresh \<^verbatim>\<open>ObjectId\<close>) in
  which no transfer to the sender's own account has its credit rounded away while
  its debit is not, the database has the same properties: for every account with at
  least one record, the stored balance is the balance field of the record written
  last for it.
\<close>

theorem balance_matches_last_record:
  assumes "wellFormed d" and "balanceMatchesLedger d"
    and "freshIds d rs" and "noCreditAbsorbed d rs"
  shows "wellFormed (run d rs) \<and> balanceMatchesLedger (run d rs)"
proof -
  from assms(1,2) have "ledgerInvariant d"
    by (simp add: ledgerInvariant_def)
  then have "ledgerInvariant (run d rs)"
    using assms(3,4) by (rule invariant_run)
  then show ?thesis
    by (simp add: ledgerInvariant_def)
qed

theorem balance_matches_last_record_witness:
  "wellFormed emptyDb \<and> balanceMatchesLedger emptyDb \<and>
   freshIds emptyDb signupThenDeposits \<and> noCreditAbsorbed emptyDb signupThenDeposits \<and>
   balanceMatchesLedger (run emptyDb signupThenDeposits) \<and>
   map_option u_balance (findById (run emptyDb signupThenDeposits) 3) = Some 50 \<and>
   map_option t_balance (lastRecord (run emptyDb signupThenDeposits) 3) = Some 50"
proof -
  have new: "newObjectId env0 = 3"
    by (simp add: env0_def)
  have wf: "wellFormed emptyDb" and ok: "balanceMatchesLedger emptyDb"
    using invariant_emptyDb by (simp_all add: ledgerInvariant_def)
  have fresh: "freshIds emptyDb signupThenDeposits"
    by (simp add: signupThenDeposits_def emptyDb_def new)
  have exact: "noCreditAbsorbed emptyDb signupThenDeposits"
    by (simp add: signupThenDeposits_def)
  have r70: "roundToDouble 70 = 70" and r50: "roundToDouble 50 = 50"
    using roundToDouble_of_int [of 70] roundToDouble_of_int [of 50] by simp_all
  have final: "run emptyDb signupThenDeposits =
      \<lparr>userColl = [\<lparr>u_id = 3, u_name = ''Carol'', u_email = ''carol@example.com'',
                    u_password = bcryptHash env0 ''secret'', u_accountNumber = None,
                    u_balance = 50, u_transactions = []\<rparr>],
       txnColl = [\<lparr>t_userId = 3, t_type = ''deposit'', t_amount = 70, t_balance = 70,
                   t_recipientId = None, t_recipientName = None, t_senderId = None,
                   t_senderName = None, t_date = dateNow env0 0\<rparr>,
                  \<lparr>t_userId = 3, t_type = ''withdraw'', t_amount = 20, t_balance = 50,
                   t_recipientId = None, t_recipientName = None, t_senderId = None,
                   t_senderName = None, t_date = dateNow env0 0\<rparr>]\<rparr>"
    by (simp add: signupThenDeposits_def emptyDb_def new post_signup_def findOneByEmail_def
        post_transaction_def transaction_try_def findById_def saveUser_def saveTransaction_def
        Let_def numberAdd_def r70 r50)
  have stored: "map_option u_balance (findById (run emptyDb signupThenDeposits) 3) = Some 50"
    unfolding final by (simp add: findById_def)
  have rec: "map_option t_balance (lastRecord (run emptyDb signupThenDeposits) 3) = Some 50"
    unfolding final by (simp add: lastRecord_def)
  from balance_matches_last_record [OF wf ok fresh exact] wf ok fresh exact stored rec
  show ?thesis
    by blast
qed

text \<open>
  The condition is needed. The account that holds \<open>2^53\<close> transfers 1 to itself:
  the debit is written, the credit rounds back to \<open>2^53\<close> and is not, so the stored
  balance is \<open>2^53 - 1\<close> while the record written last says \<open>2^53\<close>.
\<close>

theorem absorbed_credit_counterexample:
  "wellFormed db1 \<and> balanceMatchesLedger db1 \<and>
   freshIds db1 [(env0, Transfer 4 ''4000000000'' 1 ''Erin'')] \<and>
   map_option u_balance
     (findById (run db1 [(env0, Transfer 4 ''4000000000'' 1 ''Erin'')]) 4)
     = Some 9007199254740991 \<and>
   map_option t_balance
     (lastRecord (run db1 [(env0, Transfer 4 ''4000000000'' 1 ''Erin'')]) 4)
     = Some 9007199254740992 \<and>
   \<not> balanceMatchesLedger (run db1 [(env0, Transfer 4 ''4000000000'' 1 ''Erin'')])"
proof -
  have wf: "wellFormed db1"
    by (simp add: wellFormed_def db1_def alice_def erin_def frank_def)
  have ok: "balanceMatchesLedger db1"
    by (simp add: balanceMatchesLedger_def lastRecord_def db1_def)
  have fresh: "freshIds db1 [(env0, Transfer 4 ''4000000000'' 1 ''Erin'')]"
    by simp
  let ?d = "run db1 [(env0, Transfer 4 ''4000000000'' 1 ''Erin'')]"
  have final: "?d = fst (post_transfer env0 db1 4 ''4000000000'' 1 ''Erin'')"
    by simp
  have stored: "map_option u_balance (findById ?d 4) = Some 9007199254740991"
    unfolding final using erin_self_transfer by (simp add: findById_def alice_def erin_def)
  have rec: "map_option t_balance (lastRecord ?d 4) = Some 9007199254740992"
    unfolding final using erin_self_transfer by (simp add: lastRecord_def)
  have "erin\<lparr>u_balance := 9007199254740991\<rparr> \<in> set (userColl ?d)"
    unfolding final using erin_self_transfer by simp
  moreover have "lastRecord ?d (u_id (erin\<lparr>u_balance := 9007199254740991\<rparr>)) =
      Some \<lparr>t_userId = 4, t_type = ''transfer_received'', t_amount = 1,
            t_balance = 9007199254740992, t_recipientId = None,
            t_recipientName = None, t_senderId = Some 4,
            t_senderName = Some ''Erin'', t_date = dateNow env0 1\<rparr>"
    unfolding final using erin_self_transfer by (simp add: lastRecord_def erin_def)
  ultimately have "\<not> balanceMatchesLedger ?d"
    unfolding balanceMatchesLedger_def by force
  with wf ok fresh stored rec show ?thesis
    by blast
qed

end
